theory Spec2Isabelle
  imports Main "HOL-Library.Word" "HOL-Library.Multiset" "HOL-Library.Sublist"
    "HOL-Library.Product_Lexorder" "HOL-Library.List_Lexorder" "HOL-Library.Char_ord"
begin

section \<open>MultiLogger: the data model of Log.h and Log.cpp\<close>

subsection \<open>Priority and its stream operator (Log.h, lines 42-63)\<close>

text \<open>
  \<^verbatim>\<open>enum class Priority { Debug, Info, Warning, Error, Critical, __Size };\<close>
  A scoped enumeration has the underlying type \<^verbatim>\<open>int\<close>, and every value of that type is a
  value of the enumeration (\<^verbatim>\<open>static_cast<Priority>(n)\<close>, as Tester.cpp line 155 does).
  The model is the underlying integer; the program only compares priorities, it never
  computes with them, so no wrap-around is involved.
\<close>

type_synonym Priority = int

definition Debug :: Priority where "Debug = 0"
definition Info :: Priority where "Info = 1"
definition Warning :: Priority where "Warning = 2"
definition Error :: Priority where "Error = 3"
definition Critical :: Priority where "Critical = 4"
definition Priority_Size :: Priority where "Priority_Size = 5"

text \<open>\<^verbatim>\<open>std::runtime_error(what)\<close>, the only exception type the library throws.\<close>

datatype error = RuntimeError string

text \<open>
  An output stream is modelled by the text it has received so far. The operator appends the
  name of the enumerator; a value that matches no \<^verbatim>\<open>case\<close> leaves the \<^verbatim>\<open>switch\<close> and reaches
  the \<^verbatim>\<open>throw\<close>.
\<close>

definition stream_Priority :: "string \<Rightarrow> Priority \<Rightarrow> error + string" where
  "stream_Priority lhs rhs =
     (if rhs = Debug then Inr (lhs @ ''Debug'')
      else if rhs = Info then Inr (lhs @ ''Info'')
      else if rhs = Warning then Inr (lhs @ ''Warning'')
      else if rhs = Error then Inr (lhs @ ''Error'')
      else if rhs = Critical then Inr (lhs @ ''Critical'')
      else Inl (RuntimeError ''unknown priority!''))"

subsection \<open>Destinations (Log.h, lines 81-116; Log.cpp, lines 299-349)\<close>

text \<open>
  The three classes derived from \<^verbatim>\<open>LogDest\<close>. A \<^verbatim>\<open>FileDest\<close> is identified by the file name it
  was opened with. What a destination does with a line it is given depends on the state of
  its stream (a \<^verbatim>\<open>FileDest\<close> passes the line on if its file stream is good) and is left out;
  the calls the engine makes on a destination are recorded as effects (below).
\<close>

datatype LogDest = FileDest string | StdOutDest | StdErrDest

text \<open>
  \<^verbatim>\<open>FileDest::FileDest(fname_)\<close>: opens the file for output and throws when the stream is not
  good. Whether a file can be opened is a fact about the file system, given as \<open>can_open\<close>.
\<close>

definition FileDest_ctor :: "(string \<Rightarrow> bool) \<Rightarrow> string \<Rightarrow> error + LogDest" where
  "FileDest_ctor can_open fname =
     (if \<not> can_open fname
      then Inl (RuntimeError (''cannot open file '' @ fname @ '' for logging!''))
      else Inr (FileDest fname))"

subsection \<open>LogTarget and Logger::Impl (Log.cpp, lines 31-54 and 278-294)\<close>

text \<open>\<^verbatim>\<open>LogDest::ptr_t\<close> is a \<^verbatim>\<open>unique_ptr\<close>: \<open>None\<close> is the null pointer.\<close>

record LogTarget =
  t_name :: string
  t_dest :: "LogDest option"
  t_threshold :: Priority
  t_enabled :: bool

text \<open>
  A \<^verbatim>\<open>time_point\<close> of the system clock, as its count of nanoseconds since the epoch.
  \<^verbatim>\<open>queue_element_t\<close> is \<^verbatim>\<open>pair<time_point_t, pair<Priority, string>>\<close>.
\<close>

type_synonym time_point = int
type_synonym queue_element = "time_point \<times> Priority \<times> string"

text \<open>
  The members of \<^verbatim>\<open>Logger::Impl\<close>. \<open>m_queue\<close> holds the elements of the priority queue (a
  multiset: \<^verbatim>\<open>top\<close> and \<^verbatim>\<open>pop\<close> are modelled below). \<open>m_requestedErrors\<close> is an atomic
  \<^verbatim>\<open>size_t\<close>, taken as 64 bits wide; \<open>m_verifCB\<close> is \<open>None\<close> for an empty \<^verbatim>\<open>std::function\<close> and
  otherwise names the callback that was stored.
\<close>

record Impl =
  m_category :: string
  m_globalThreshold :: Priority
  m_dests :: "LogTarget list"
  m_queue :: "queue_element list"
  m_log :: bool
  m_errorThreshold :: Priority
  m_requestedErrors :: "64 word"
  m_verifCB :: "nat option"

subsection \<open>Formatting a line (Log.cpp, lines 157-171)\<close>

text \<open>The arguments of \<^verbatim>\<open>Logger::operator()\<close>, as the macro \<^verbatim>\<open>MRLogL\<close> passes them.\<close>

record log_call =
  c_message :: string
  c_pri :: Priority
  c_function :: string
  c_file :: string
  c_line :: int
  c_threadId :: nat

text \<open>\<^verbatim>\<open>struct tm\<close> of the C library.\<close>

record tm =
  tm_sec :: int
  tm_min :: int
  tm_hour :: int
  tm_mday :: int
  tm_mon :: int
  tm_year :: int
  tm_wday :: int
  tm_yday :: int
  tm_isdst :: int

text \<open>
  What the C and C++ run-time libraries contribute to a line: \<^verbatim>\<open>gmtime_r\<close> (\<open>None\<close> when it
  returns a null pointer), the text \<^verbatim>\<open>std::put_time(&tm, "%b %e %T")\<close> produces (it depends
  on the locale) and the text \<^verbatim>\<open>operator<<\<close> produces for a \<^verbatim>\<open>std::thread::id\<close>.
\<close>

record env =
  gmtime_r :: "int \<Rightarrow> tm option"
  put_time :: "tm \<Rightarrow> string"
  thread_id_text :: "nat \<Rightarrow> string"

text \<open>Decimal output of an integer, as \<^verbatim>\<open>operator<<\<close> prints it.\<close>

function dec_nat :: "nat \<Rightarrow> string" where
  "dec_nat n =
     (if n < 10 then [''0123456789'' ! n]
      else dec_nat (n div 10) @ [''0123456789'' ! (n mod 10)])"
  by pat_completeness auto
termination
  by (relation "measure id") auto

declare dec_nat.simps [simp del]

definition dec_int :: "int \<Rightarrow> string" where
  "dec_int i = (if i < 0 then ''-'' @ dec_nat (nat (- i)) else dec_nat (nat i))"

text \<open>
  \<^verbatim>\<open>duration_cast<seconds>\<close> of a count of nanoseconds: integer division that truncates
  towards zero. \<^verbatim>\<open>system_clock::to_time_t\<close> is the same conversion.
\<close>

definition to_seconds :: "time_point \<Rightarrow> int" where
  "to_seconds t = (if t < 0 then - ((- t) div 1000000000) else t div 1000000000)"

definition to_time_t :: "time_point \<Rightarrow> int" where
  "to_time_t t = to_seconds t"

text \<open>
  The body of the formatting lambda up to \<^verbatim>\<open>formattedMsg.str()\<close>. The category is the value
  of \<^verbatim>\<open>_category\<close> at the moment the task reads it. Each line of the \<open>let\<close> is one
  \<^verbatim>\<open><<\<close> of the source, in its order.
\<close>

definition format_line :: "env \<Rightarrow> string \<Rightarrow> time_point \<Rightarrow> log_call \<Rightarrow> error + string" where
  "format_line ev cat now c =
     (case gmtime_r ev (to_time_t now) of
        None \<Rightarrow> Inl (RuntimeError ''cannot get time for logging!'')
      | Some tm \<Rightarrow>
          (let total_nanos = now;
               total_seconds_in_nanos = to_seconds now * 1000 * 1000 * 1000;
               nanos = total_nanos - total_seconds_in_nanos;
               os1 = [] @ put_time ev tm;
               os2 = os1 @ ''.'';
               os3 = os2 @ dec_int nanos;
               os4 = os3 @ '' '';
               os5 = os4 @ thread_id_text ev (c_threadId c);
               os6 = os5 @ '' '';
               os7 = os6 @ cat;
               os8 = os7 @ '' '';
               os9 = os8 @ c_function c;
               os10 = os9 @ '' ''
           in case stream_Priority os10 (c_pri c) of
                Inl e \<Rightarrow> Inl e
              | Inr os11 \<Rightarrow>
                  (let os12 = os11 @ '': '';
                       os13 = os12 @ c_message c;
                       os14 = os13 @ '' ('';
                       os15 = os14 @ c_file c;
                       os16 = os15 @ '':'';
                       os17 = os16 @ dec_int (c_line c)
                   in Inr (os17 @ [CHR '')'', CHR 0x0A]))))"

subsection \<open>Configuration and queries (Log.cpp, lines 182-271 and 353-356)\<close>

text \<open>
  The constructor of \<^verbatim>\<open>Impl\<close> with the default member initialisers of lines 288-294;
  \<^verbatim>\<open>Logger::Logger\<close> passes its arguments on, and its declaration (Log.h, lines 217-218)
  gives their defaults: an absent argument is \<open>None\<close>.
\<close>

definition Impl_ctor :: "Priority \<Rightarrow> string \<Rightarrow> Impl" where
  "Impl_ctor globalThreshold' category' =
     \<lparr>m_category = category', m_globalThreshold = globalThreshold', m_dests = [],
      m_queue = [], m_log = True, m_errorThreshold = Error, m_requestedErrors = 0,
      m_verifCB = None\<rparr>"

definition Logger_ctor :: "Priority option \<Rightarrow> string option \<Rightarrow> Impl" where
  "Logger_ctor globalThreshold' category' =
     Impl_ctor (case globalThreshold' of None \<Rightarrow> Info | Some p \<Rightarrow> p)
               (case category' of None \<Rightarrow> ''global'' | Some c \<Rightarrow> c)"

definition category_set :: "string \<Rightarrow> ('a Impl_scheme) \<Rightarrow> ('a Impl_scheme)" where
  "category_set category' s = s\<lparr>m_category := category'\<rparr>"

definition addDest :: "string \<Rightarrow> LogDest option \<Rightarrow> ('a Impl_scheme) \<Rightarrow> ('a Impl_scheme)" where
  "addDest name' dest' s =
     s\<lparr>m_dests := m_dests s @
        [\<lparr>t_name = name', t_dest = dest', t_threshold = m_globalThreshold s, t_enabled = True\<rparr>]\<rparr>"

definition addDest_thr ::
  "string \<Rightarrow> Priority \<Rightarrow> LogDest option \<Rightarrow> ('a Impl_scheme) \<Rightarrow> ('a Impl_scheme)" where
  "addDest_thr name' thresHold' dest' s =
     s\<lparr>m_dests := m_dests s @
        [\<lparr>t_name = name', t_dest = dest', t_threshold = thresHold', t_enabled = True\<rparr>]\<rparr>"

text \<open>
  \<^verbatim>\<open>std::find_if\<close> over the vector, and an assignment through the iterator it returns: the
  first target with the name is changed, none when no target has it.
\<close>

fun update_first :: "string \<Rightarrow> (LogTarget \<Rightarrow> LogTarget) \<Rightarrow> LogTarget list \<Rightarrow> LogTarget list" where
  "update_first n f [] = []"
| "update_first n f (t # ts) = (if n = t_name t then f t # ts else t # update_first n f ts)"

definition permitDest :: "string \<Rightarrow> bool \<Rightarrow> ('a Impl_scheme) \<Rightarrow> ('a Impl_scheme)" where
  "permitDest name' enable' s =
     s\<lparr>m_dests := update_first name' (\<lambda>t. t\<lparr>t_enabled := enable'\<rparr>) (m_dests s)\<rparr>"

definition threshold_global :: "Priority \<Rightarrow> ('a Impl_scheme) \<Rightarrow> ('a Impl_scheme)" where
  "threshold_global globalThreshold' s = s\<lparr>m_globalThreshold := globalThreshold'\<rparr>"

definition threshold_dest :: "string \<Rightarrow> Priority \<Rightarrow> ('a Impl_scheme) \<Rightarrow> ('a Impl_scheme)" where
  "threshold_dest destName' threshold' s =
     s\<lparr>m_dests := update_first destName' (\<lambda>t. t\<lparr>t_threshold := threshold'\<rparr>) (m_dests s)\<rparr>"

definition verifyCB :: "nat option \<Rightarrow> ('a Impl_scheme) \<Rightarrow> ('a Impl_scheme)" where
  "verifyCB cb' s = s\<lparr>m_verifCB := cb'\<rparr>"

definition errorThreshold_set :: "Priority \<Rightarrow> ('a Impl_scheme) \<Rightarrow> ('a Impl_scheme)" where
  "errorThreshold_set errorThreshold' s = s\<lparr>m_errorThreshold := errorThreshold'\<rparr>"

definition category_get :: "('a Impl_scheme) \<Rightarrow> string" where
  "category_get s = m_category s"

definition errorThreshold_get :: "('a Impl_scheme) \<Rightarrow> Priority" where
  "errorThreshold_get s = m_errorThreshold s"

definition logging_pri :: "Priority \<Rightarrow> ('a Impl_scheme) \<Rightarrow> bool" where
  "logging_pri pri' s = (\<not> (pri' < m_globalThreshold s))"

definition logging_dest :: "string \<Rightarrow> ('a Impl_scheme) \<Rightarrow> bool" where
  "logging_dest destName' s =
     (case find (\<lambda>target'. destName' = t_name target') (m_dests s) of
        None \<Rightarrow> False
      | Some cit \<Rightarrow> t_enabled cit)"

text \<open>
  The statement \<^verbatim>\<open>log.addDest(name, make_unique<FileDest>(fname))\<close> (unittest.cpp, line 15;
  Tester.cpp, lines 122-124): the argument is constructed before \<^verbatim>\<open>addDest\<close> is entered, so an
  exception of the constructor leaves the statement before \<^verbatim>\<open>addDest\<close> runs. The result is
  the exception that reaches the caller, if any, and the logger after the statement.
\<close>

definition addDest_FileDest ::
  "(string \<Rightarrow> bool) \<Rightarrow> string \<Rightarrow> string \<Rightarrow> ('a Impl_scheme) \<Rightarrow> error option \<times> ('a Impl_scheme)" where
  "addDest_FileDest can_open name' fname s =
     (case FileDest_ctor can_open fname of
        Inl e \<Rightarrow> (Some e, s)
      | Inr d \<Rightarrow> (None, addDest name' (Some d) s))"

section \<open>The threads of a logger\<close>

subsection \<open>Effects\<close>

text \<open>
  What the logger does to the outside, in the order it does it: \<open>Write i line\<close> is the call
  \<^verbatim>\<open>target._dest->write(line)\<close> on the target at position \<open>i\<close> of \<^verbatim>\<open>_dests\<close>, \<open>Flush i\<close> the call
  \<^verbatim>\<open>target._dest->flush()\<close>, and \<open>Callback cb n\<close> the call \<^verbatim>\<open>_verifCB(n)\<close> of the stored callback
  \<open>cb\<close>. Targets are never removed, so a position names one target for the whole run.
  \<open>Popped msg\<close> marks that the drain loop took \<open>msg\<close> from its batch (Log.cpp, lines 110-111).
\<close>

datatype effect =
    Popped queue_element
  | Write nat string
  | Flush nat
  | Callback nat "64 word"

fun writes_to :: "nat \<Rightarrow> effect list \<Rightarrow> string list" where
  "writes_to i [] = []"
| "writes_to i (Write j l # es) = (if j = i then l # writes_to i es else writes_to i es)"
| "writes_to i (_ # es) = writes_to i es"

fun popped :: "effect list \<Rightarrow> queue_element list" where
  "popped [] = []"
| "popped (Popped m # es) = m # popped es"
| "popped (_ # es) = popped es"

fun is_teardown_effect :: "effect \<Rightarrow> bool" where
  "is_teardown_effect (Flush i) = True"
| "is_teardown_effect (Callback cb n) = True"
| "is_teardown_effect _ = False"

subsection \<open>The priority queue\<close>

text \<open>
  \<^verbatim>\<open>std::priority_queue<queue_element_t, vector<...>, std::greater<...>>\<close>: \<^verbatim>\<open>top\<close> is a least
  element of the queue in the lexicographic order of the pairs (time, then priority, then
  text), and \<^verbatim>\<open>pop\<close> removes it.
\<close>

definition pq_push :: "queue_element \<Rightarrow> queue_element list \<Rightarrow> queue_element list" where
  "pq_push x q = x # q"

definition pq_top :: "queue_element list \<Rightarrow> queue_element" where
  "pq_top q = Min (set q)"

definition pq_pop :: "queue_element list \<Rightarrow> queue_element list" where
  "pq_pop q = remove1 (pq_top q) q"

subsection \<open>The drain worker (Log.cpp, lines 95-119)\<close>

text \<open>The \<^verbatim>\<open>for\<close> loop of lines 112-116 over the targets from position \<open>i\<close> on.\<close>

fun write_targets :: "nat \<Rightarrow> LogTarget list \<Rightarrow> queue_element \<Rightarrow> effect list" where
  "write_targets i [] msg = []"
| "write_targets i (target # ts) msg =
     (if t_enabled target \<and> \<not> (fst (snd msg) < t_threshold target) \<and> t_dest target \<noteq> None
      then Write i (snd (snd msg)) # write_targets (Suc i) ts msg
      else write_targets (Suc i) ts msg)"

text \<open>The \<^verbatim>\<open>while (!localQueue.empty())\<close> loop of lines 109-117.\<close>

function drain_loop :: "LogTarget list \<Rightarrow> queue_element list \<Rightarrow> effect list" where
  "drain_loop ds localQueue =
     (if localQueue = [] then []
      else (let msg = pq_top localQueue
            in Popped msg # write_targets 0 ds msg @ drain_loop ds (pq_pop localQueue)))"
  by pat_completeness auto
termination
proof (relation "measure (\<lambda>(ds, q). length q)")
  show "wf (measure (\<lambda>(ds, q). length q))"
    by simp
next
  fix ds :: "LogTarget list" and localQueue :: "queue_element list" and x :: queue_element
  assume ne: "localQueue \<noteq> []"
  then have "Min (set localQueue) \<in> set localQueue"
    by (intro Min_in) simp_all
  then have "length (pq_pop localQueue) = length localQueue - 1"
    by (simp add: pq_pop_def pq_top_def length_remove1)
  moreover from ne have "0 < length localQueue"
    by simp
  ultimately show "((ds, pq_pop localQueue), (ds, localQueue)) \<in> measure (\<lambda>(ds, q). length q)"
    by simp
qed

declare drain_loop.simps [simp del]

subsection \<open>Teardown (Log.cpp, lines 121-134)\<close>

text \<open>The \<^verbatim>\<open>for\<close> loop of lines 127-131 over the targets from position \<open>i\<close> on.\<close>

fun flush_targets :: "nat \<Rightarrow> LogTarget list \<Rightarrow> effect list" where
  "flush_targets i [] = []"
| "flush_targets i (target # ts) =
     (if t_dest target \<noteq> None then Flush i # flush_targets (Suc i) ts
      else flush_targets (Suc i) ts)"

subsection \<open>The state of a running logger\<close>

text \<open>
  A task is the detached thread one call of \<^verbatim>\<open>log\<close> starts (lines 157-179): it holds the
  captured arguments and time stamp, then the formatted element, and is finished once it has
  pushed the element. The worker is at the head of its loop, waiting in \<^verbatim>\<open>wait_for\<close>,
  holding the batch it swapped out, or has left the loop. The logger is alive, in its
  destructor waiting in \<^verbatim>\<open>join\<close>, or destroyed.
\<close>

datatype task = Captured log_call time_point | Formatted queue_element | Finished

datatype worker = LoopHead | Waiting | Holding "queue_element list" | Exited

datatype lifetime = Alive | Joining | Destroyed

record sys = Impl +
  tasks :: "task list"
  worker :: worker
  lifetime :: lifetime
  trace :: "effect list"
  crashed :: "error option"

text \<open>A logger right after its constructor: the worker thread has been started.\<close>

definition start :: "Priority option \<Rightarrow> string option \<Rightarrow> sys" where
  "start globalThreshold' category' =
     Impl.extend (Logger_ctor globalThreshold' category')
       (sys.fields [] LoopHead Alive [] None)"

text \<open>
  \<^verbatim>\<open>Impl::log\<close> up to the start of the thread (lines 143-157). \<open>now\<close> is what
  \<^verbatim>\<open>system_clock::now()\<close> returns to this call.
\<close>

definition log :: "log_call \<Rightarrow> time_point \<Rightarrow> sys \<Rightarrow> sys" where
  "log c now s =
     (if c_pri c < m_globalThreshold s then s
      else (let s1 = (if m_verifCB s \<noteq> None \<and> \<not> (c_pri c < m_errorThreshold s)
                      then s\<lparr>m_requestedErrors := m_requestedErrors s + 1\<rparr>
                      else s)
            in s1\<lparr>tasks := tasks s1 @ [Captured c now]\<rparr>))"

text \<open>
  The first part of a task (lines 158-171): an exception leaves the thread function, which
  terminates the process.
\<close>

definition task_format :: "env \<Rightarrow> nat \<Rightarrow> log_call \<Rightarrow> time_point \<Rightarrow> sys \<Rightarrow> sys" where
  "task_format rt i c now s =
     (case format_line rt (m_category s) now c of
        Inl e \<Rightarrow> s\<lparr>crashed := Some e\<rparr>
      | Inr formattedMsg \<Rightarrow> s\<lparr>tasks := (tasks s)[i := Formatted (now, c_pri c, formattedMsg)]\<rparr>)"

text \<open>The second part of a task (lines 173-177).\<close>

definition task_push :: "nat \<Rightarrow> queue_element \<Rightarrow> sys \<Rightarrow> sys" where
  "task_push i el s = s\<lparr>m_queue := pq_push el (m_queue s), tasks := (tasks s)[i := Finished]\<rparr>"

text \<open>The worker: the exit test (lines 97-101), the swap (103-106) and the dispatch (108-117).\<close>

definition worker_check :: "sys \<Rightarrow> sys" where
  "worker_check s =
     (if m_queue s = [] \<and> \<not> m_log s then s\<lparr>worker := Exited\<rparr> else s\<lparr>worker := Waiting\<rparr>)"

definition worker_swap :: "sys \<Rightarrow> sys" where
  "worker_swap s = s\<lparr>m_queue := [], worker := Holding (m_queue s)\<rparr>"

definition worker_dispatch :: "queue_element list \<Rightarrow> sys \<Rightarrow> sys" where
  "worker_dispatch localQueue s =
     s\<lparr>trace := trace s @ drain_loop (m_dests s) localQueue, worker := LoopHead\<rparr>"

text \<open>The destructor: line 123, and lines 126-133 once \<^verbatim>\<open>join\<close> has returned.\<close>

definition dtor_begin :: "sys \<Rightarrow> sys" where
  "dtor_begin s = s\<lparr>m_log := False, lifetime := Joining\<rparr>"

definition dtor_finish :: "sys \<Rightarrow> sys" where
  "dtor_finish s =
     (case m_verifCB s of
        None \<Rightarrow> s\<lparr>lifetime := Destroyed\<rparr>
      | Some cb \<Rightarrow>
          s\<lparr>trace := trace s @ flush_targets 0 (m_dests s) @ [Callback cb (m_requestedErrors s)],
            lifetime := Destroyed\<rparr>)"

subsection \<open>Schedules\<close>

text \<open>
  The atomic steps of a run. A member function called by the application runs under the
  mutex it takes; a task formats, then pushes under \<^verbatim>\<open>_writeMutex\<close>; the worker tests for its
  exit and swaps under \<^verbatim>\<open>_writeMutex\<close> (which \<^verbatim>\<open>wait_for\<close> releases in between) and dispatches
  a batch under \<^verbatim>\<open>_destMutex\<close>. A schedule is the order in which the steps happen. \<open>step\<close>
  is \<open>None\<close> when the step cannot happen in the state: nothing happens after the process
  was terminated or the logger destroyed, the application calls member functions only
  while the logger is alive, and \<^verbatim>\<open>join\<close> returns only when the worker has left its loop.
\<close>

datatype event =
    Call_log log_call time_point
  | Call_category string
  | Call_addDest string "LogDest option"
  | Call_addDest_thr string Priority "LogDest option"
  | Call_permitDest string bool
  | Call_threshold Priority
  | Call_threshold_dest string Priority
  | Call_verifyCB "nat option"
  | Call_errorThreshold Priority
  | Task_format nat
  | Task_push nat
  | Worker_check
  | Worker_swap
  | Worker_dispatch
  | Dtor_begin
  | Dtor_finish

definition call :: "(sys \<Rightarrow> sys) \<Rightarrow> sys \<Rightarrow> sys option" where
  "call f s = (if lifetime s = Alive then Some (f s) else None)"

fun step_event :: "env \<Rightarrow> event \<Rightarrow> sys \<Rightarrow> sys option" where
  "step_event rt (Call_log c now) s = call (log c now) s"
| "step_event rt (Call_category n) s = call (category_set n) s"
| "step_event rt (Call_addDest n d) s = call (addDest n d) s"
| "step_event rt (Call_addDest_thr n p d) s = call (addDest_thr n p d) s"
| "step_event rt (Call_permitDest n b) s = call (permitDest n b) s"
| "step_event rt (Call_threshold p) s = call (threshold_global p) s"
| "step_event rt (Call_threshold_dest n p) s = call (threshold_dest n p) s"
| "step_event rt (Call_verifyCB cb) s = call (verifyCB cb) s"
| "step_event rt (Call_errorThreshold p) s = call (errorThreshold_set p) s"
| "step_event rt (Task_format i) s =
     (if i < length (tasks s)
      then (case tasks s ! i of Captured c now \<Rightarrow> Some (task_format rt i c now s) | _ \<Rightarrow> None)
      else None)"
| "step_event rt (Task_push i) s =
     (if i < length (tasks s)
      then (case tasks s ! i of Formatted el \<Rightarrow> Some (task_push i el s) | _ \<Rightarrow> None)
      else None)"
| "step_event rt Worker_check s = (if worker s = LoopHead then Some (worker_check s) else None)"
| "step_event rt Worker_swap s = (if worker s = Waiting then Some (worker_swap s) else None)"
| "step_event rt Worker_dispatch s =
     (case worker s of Holding localQueue \<Rightarrow> Some (worker_dispatch localQueue s) | _ \<Rightarrow> None)"
| "step_event rt Dtor_begin s = call dtor_begin s"
| "step_event rt Dtor_finish s =
     (if lifetime s = Joining \<and> worker s = Exited then Some (dtor_finish s) else None)"

definition step :: "env \<Rightarrow> event \<Rightarrow> sys \<Rightarrow> sys option" where
  "step rt e s =
     (if crashed s \<noteq> None \<or> lifetime s = Destroyed then None else step_event rt e s)"

fun exec :: "env \<Rightarrow> event list \<Rightarrow> sys \<Rightarrow> sys option" where
  "exec rt [] s = Some s"
| "exec rt (e # es) s = (case step rt e s of None \<Rightarrow> None | Some s' \<Rightarrow> exec rt es s')"

subsection \<open>A run-time library for concrete runs\<close>

text \<open>
  An instance of the run-time library, for running the model on concrete schedules:
  \<^verbatim>\<open>gmtime_r\<close> succeeds, \<^verbatim>\<open>put_time\<close> prints the seconds of a minute on the first of January,
  and a thread identity prints as its number.
\<close>

definition test_env :: env where
  "test_env = \<lparr>gmtime_r = (\<lambda>t. Some \<lparr>tm_sec = t mod 60, tm_min = 0, tm_hour = 0, tm_mday = 1,
       tm_mon = 0, tm_year = 70, tm_wday = 4, tm_yday = 0, tm_isdst = 0\<rparr>),
     put_time = (\<lambda>tm. ''Jan  1 00:00:'' @ (if tm_sec tm < 10 then ''0'' else []) @ dec_int (tm_sec tm)),
     thread_id_text = dec_nat\<rparr>"

subsection \<open>Counting requested errors, in the words of the specification\<close>

text \<open>
  The number of \<^verbatim>\<open>log()\<close> calls of a schedule that were made with a priority at or above the
  error threshold and at or above the global threshold, both read when the call passes the
  gate, while a verification callback was registered.
\<close>

fun counted :: "event \<Rightarrow> sys \<Rightarrow> bool" where
  "counted (Call_log c now) s =
     (m_verifCB s \<noteq> None \<and> m_errorThreshold s \<le> c_pri c \<and> m_globalThreshold s \<le> c_pri c)"
| "counted _ s = False"

fun requested_errors :: "env \<Rightarrow> event list \<Rightarrow> sys \<Rightarrow> nat" where
  "requested_errors rt [] s = 0"
| "requested_errors rt (e # es) s =
     (if counted e s then 1 else 0) +
     (case step rt e s of None \<Rightarrow> 0 | Some s' \<Rightarrow> requested_errors rt es s')"

subsection \<open>The batch in the hands of the worker\<close>

text \<open>The elements the worker has swapped out of the queue and not yet dispatched.\<close>

fun held :: "worker \<Rightarrow> queue_element list" where
  "held (Holding localQueue) = localQueue"
| "held _ = []"

subsection \<open>Where the elements of a state come from\<close>

text \<open>
  \<open>passed_gate rt s0 es c now\<close>: the schedule \<open>es\<close>, run from \<open>s0\<close>, contains the call
  \<^verbatim>\<open>log\<close> with the arguments \<open>c\<close> and the captured time \<open>now\<close>, and the priority of the call
  was not below the global threshold of the state in which the call was made.
\<close>

definition passed_gate :: "env \<Rightarrow> sys \<Rightarrow> event list \<Rightarrow> log_call \<Rightarrow> time_point \<Rightarrow> bool" where
  "passed_gate rt s0 es c now \<longleftrightarrow>
     (\<exists>es1 es2 s1. es = es1 @ Call_log c now # es2 \<and> exec rt es1 s0 = Some s1 \<and>
        m_globalThreshold s1 \<le> c_pri c)"

text \<open>
  \<open>record_of_call rt s0 es el\<close>: the element \<open>el\<close> carries the time, the priority and the
  formatted line of a call of \<open>es\<close> that passed the gate.
\<close>

definition record_of_call :: "env \<Rightarrow> sys \<Rightarrow> event list \<Rightarrow> queue_element \<Rightarrow> bool" where
  "record_of_call rt s0 es el \<longleftrightarrow>
     (\<exists>c cat. passed_gate rt s0 es c (fst el) \<and> c_pri c = fst (snd el) \<and>
        format_line rt cat (fst el) c = Inr (snd (snd el)))"

text \<open>
  Every task that still holds its captured arguments satisfies \<open>C\<close>, and every element held
  by a task that has formatted it, waiting in the queue, held by the worker or already
  taken by the drain loop satisfies \<open>F\<close>.
\<close>

definition elems_from :: "(log_call \<Rightarrow> time_point \<Rightarrow> bool) \<Rightarrow> (queue_element \<Rightarrow> bool) \<Rightarrow> sys \<Rightarrow> bool" where
  "elems_from C F s \<longleftrightarrow>
     (\<forall>c now. Captured c now \<in> set (tasks s) \<longrightarrow> C c now) \<and>
     (\<forall>el. Formatted el \<in> set (tasks s) \<longrightarrow> F el) \<and>
     (\<forall>el. el \<in> set (m_queue s) \<longrightarrow> F el) \<and>
     (\<forall>el. el \<in> set (held (worker s)) \<longrightarrow> F el) \<and>
     (\<forall>el. el \<in> set (popped (trace s)) \<longrightarrow> F el)"

subsection \<open>Where an element was formatted and where it was dispatched\<close>

text \<open>
  \<open>formatted_in rt s0 es el\<close>: the element \<open>el\<close> stems from a call of \<^verbatim>\<open>log\<close> in \<open>es\<close> that passed
  the gate, and a step \<open>Task_format k\<close> of \<open>es\<close> formatted it: in the state \<open>u\<close> of that step
  the task \<open>k\<close> held the arguments and the time of the call, and the line of \<open>el\<close> is what
  \<open>format_line\<close> makes of them and of the category of \<open>u\<close>.
\<close>

definition formatted_in :: "env \<Rightarrow> sys \<Rightarrow> event list \<Rightarrow> queue_element \<Rightarrow> bool" where
  "formatted_in rt s0 es el \<longleftrightarrow>
     (\<exists>c es_f k es_g u. passed_gate rt s0 es c (fst el) \<and> c_pri c = fst (snd el) \<and>
        es = es_f @ Task_format k # es_g \<and> exec rt es_f s0 = Some u \<and>
        k < length (tasks u) \<and> tasks u ! k = Captured c (fst el) \<and>
        format_line rt (m_category u) (fst el) c = Inr (snd (snd el)))"


section \<open>Properties\<close>

lemmas Priority_defs = Debug_def Info_def Warning_def Error_def Critical_def Priority_Size_def

subsection \<open>Streaming a priority\<close>

text \<open>
  Claim C10. Streaming one of the five named enumerators appends its name (\<open>Debug\<close>, \<open>Info\<close>,
  \<open>Warning\<close>, \<open>Error\<close>, \<open>Critical\<close>) to the stream; streaming any other value of the
  enumeration, \<^verbatim>\<open>Priority::__Size\<close> among them, throws the runtime error
  \<open>unknown priority!\<close>.
\<close>

theorem stream_Priority_names:
  "stream_Priority os Debug = Inr (os @ ''Debug'') \<and>
   stream_Priority os Info = Inr (os @ ''Info'') \<and>
   stream_Priority os Warning = Inr (os @ ''Warning'') \<and>
   stream_Priority os Error = Inr (os @ ''Error'') \<and>
   stream_Priority os Critical = Inr (os @ ''Critical'') \<and>
   stream_Priority os Priority_Size = Inl (RuntimeError ''unknown priority!'') \<and>
   (p \<notin> {Debug, Info, Warning, Error, Critical} \<longrightarrow>
      stream_Priority os p = Inl (RuntimeError ''unknown priority!''))"
  by (simp add: stream_Priority_def Priority_defs)

theorem stream_Priority_names_witness:
  "stream_Priority ''x'' 3 = Inr ''xError'' \<and>
   stream_Priority ''x'' 5 = Inl (RuntimeError ''unknown priority!'') \<and>
   stream_Priority ''x'' (- 1) = Inl (RuntimeError ''unknown priority!'')"
  using stream_Priority_names [of "''x''" "- 1"]
  by (simp add: Priority_defs)

subsection \<open>A new logger\<close>

text \<open>
  Claim C9. A logger constructed with no arguments has the global threshold \<open>Info\<close> and the
  category \<open>global\<close>; a logger constructed with arguments has exactly the given global
  threshold and category; either way the error threshold is \<open>Error\<close>, there is no
  destination and the count of requested errors is zero.
\<close>

theorem Logger_ctor_initial:
  "m_globalThreshold (Logger_ctor None None) = Info \<and>
   m_category (Logger_ctor None None) = ''global'' \<and>
   m_errorThreshold (Logger_ctor gt cat) = Error \<and>
   m_dests (Logger_ctor gt cat) = [] \<and>
   m_requestedErrors (Logger_ctor gt cat) = 0 \<and>
   m_globalThreshold (Logger_ctor (Some p) (Some c)) = p \<and>
   m_category (Logger_ctor (Some p) (Some c)) = c"
  by (simp add: Logger_ctor_def Impl_ctor_def)

theorem Logger_ctor_initial_witness:
  "m_globalThreshold (Logger_ctor None None) = 1 \<and>
   m_errorThreshold (Logger_ctor None None) = 3 \<and>
   unat (m_requestedErrors (Logger_ctor None None)) = 0 \<and>
   m_globalThreshold (Logger_ctor (Some 0) (Some ''debugger'')) = 0 \<and>
   m_category (Logger_ctor (Some 0) (Some ''debugger'')) = ''debugger''"
  using Logger_ctor_initial [of None None 0 "''debugger''"]
  by (simp add: Priority_defs)

subsection \<open>Asking whether a destination is logging\<close>

lemma find_first_index:
  "(case find P xs of None \<Rightarrow> False | Some x \<Rightarrow> Q x) \<longleftrightarrow>
   (\<exists>i<length xs. P (xs ! i) \<and> (\<forall>j<i. \<not> P (xs ! j)) \<and> Q (xs ! i))"
proof (cases "find P xs")
  case None
  then have "\<forall>x\<in>set xs. \<not> P x"
    by (simp add: find_None_iff)
  then have "\<forall>i<length xs. \<not> P (xs ! i)"
    by simp
  with None show ?thesis
    by auto
next
  case (Some x)
  then obtain i where i: "i < length xs" "P (xs ! i)" "x = xs ! i" "\<forall>j<i. \<not> P (xs ! j)"
    by (auto simp: find_Some_iff)
  have uniq: "k = i" if "k < length xs" "P (xs ! k)" "\<forall>j<k. \<not> P (xs ! j)" for k
  proof (rule ccontr)
    assume "k \<noteq> i"
    then consider "k < i" | "i < k"
      by linarith
    then show False
      using i that by cases auto
  qed
  show ?thesis
  proof
    assume "case find P xs of None \<Rightarrow> False | Some x \<Rightarrow> Q x"
    with Some i show "\<exists>i<length xs. P (xs ! i) \<and> (\<forall>j<i. \<not> P (xs ! j)) \<and> Q (xs ! i)"
      by auto
  next
    assume "\<exists>i<length xs. P (xs ! i) \<and> (\<forall>j<i. \<not> P (xs ! j)) \<and> Q (xs ! i)"
    then obtain k where "k < length xs" "P (xs ! k)" "\<forall>j<k. \<not> P (xs ! j)" "Q (xs ! k)"
      by blast
    with uniq [of k] have "Q (xs ! i)"
      by simp
    with Some i show "case find P xs of None \<Rightarrow> False | Some x \<Rightarrow> Q x"
      by simp
  qed
qed

text \<open>
  Claim C6, as stated, fails: two destinations are added under the name \<open>a\<close> and
  \<^verbatim>\<open>permitDest("a", false)\<close> disables the first of them; the second is enabled, yet
  \<^verbatim>\<open>logging("a")\<close> is false.
\<close>

theorem logging_dest_duplicate_counterexample:
  "\<not> (logging_dest ''a'' (permitDest ''a'' False
         (addDest ''a'' (Some StdErrDest) (addDest ''a'' (Some StdOutDest) (Logger_ctor None None))))
      \<longleftrightarrow> (\<exists>t \<in> set (m_dests (permitDest ''a'' False
         (addDest ''a'' (Some StdErrDest) (addDest ''a'' (Some StdOutDest) (Logger_ctor None None))))).
            t_name t = ''a'' \<and> t_enabled t))"
  by (simp add: logging_dest_def permitDest_def addDest_def Logger_ctor_def Impl_ctor_def)

text \<open>
  Claim C6, amended. \<^verbatim>\<open>logging(destName)\<close> is true if and only if a target with that name
  exists and the first such target, in the order of registration, is enabled.
\<close>

theorem logging_dest_first_match:
  "logging_dest n s \<longleftrightarrow>
   (\<exists>i<length (m_dests s). t_name (m_dests s ! i) = n \<and>
      (\<forall>j<i. t_name (m_dests s ! j) \<noteq> n) \<and> t_enabled (m_dests s ! i))"
proof -
  have flip: "(\<lambda>target'. n = t_name target') = (\<lambda>t. t_name t = n)"
    by auto
  show ?thesis
    unfolding logging_dest_def flip by (rule find_first_index)
qed

theorem logging_dest_first_match_witness:
  "logging_dest ''b'' (permitDest ''a'' False
         (addDest ''b'' (Some StdErrDest) (addDest ''a'' (Some StdOutDest) (Logger_ctor None None))))
   \<and> \<not> logging_dest ''a'' (permitDest ''a'' False
         (addDest ''a'' (Some StdErrDest) (addDest ''a'' (Some StdOutDest) (Logger_ctor None None))))"
  using logging_dest_first_match [of "''b''" "permitDest ''a'' False
         (addDest ''b'' (Some StdErrDest) (addDest ''a'' (Some StdOutDest) (Logger_ctor None None)))"]
    logging_dest_first_match [of "''a''" "permitDest ''a'' False
         (addDest ''a'' (Some StdErrDest) (addDest ''a'' (Some StdOutDest) (Logger_ctor None None)))"]
  by (simp add: logging_dest_def permitDest_def addDest_def Logger_ctor_def Impl_ctor_def)

subsection \<open>Registering a file that cannot be opened\<close>

text \<open>
  Claim C7. When the file cannot be opened, registering a file destination fails with the
  runtime error of the \<^verbatim>\<open>FileDest\<close> constructor, which reaches the caller, and the logger is
  what it was before the statement: no target was added and nothing else changed.
\<close>

theorem addDest_FileDest_failure:
  assumes "\<not> can_open fname"
  shows "addDest_FileDest can_open name fname s =
           (Some (RuntimeError (''cannot open file '' @ fname @ '' for logging!'')), s)"
  using assms by (simp add: addDest_FileDest_def FileDest_ctor_def)

theorem addDest_FileDest_failure_witness:
  "addDest_FileDest (\<lambda>f. f \<noteq> ''/nonexistent/log'') ''file'' ''/nonexistent/log''
     (Logger_ctor None None) =
     (Some (RuntimeError ''cannot open file /nonexistent/log for logging!''),
      Logger_ctor None None)"
  using addDest_FileDest_failure
    [of "\<lambda>f. f \<noteq> ''/nonexistent/log''" "''/nonexistent/log''" "''file''" "Logger_ctor None None"]
  by simp

subsection \<open>The drain loop and the teardown loop\<close>

text \<open>
  The drain loop takes the elements of a batch in ascending order and gives each, in
  turn, to the targets; the lemmas below read the effects of a batch per target.
\<close>

lemma writes_to_append: "writes_to i (xs @ ys) = writes_to i xs @ writes_to i ys"
  by (induction i xs rule: writes_to.induct) simp_all

lemma popped_append: "popped (xs @ ys) = popped xs @ popped ys"
  by (induction xs rule: popped.induct) simp_all

lemma writes_to_write_targets:
  "writes_to i (write_targets k ds msg) =
     (if k \<le> i \<and> i < k + length ds \<and> t_enabled (ds ! (i - k)) \<and>
         \<not> (fst (snd msg) < t_threshold (ds ! (i - k))) \<and> t_dest (ds ! (i - k)) \<noteq> None
      then [snd (snd msg)] else [])"
proof (induction ds arbitrary: k)
  case Nil
  then show ?case by simp
next
  case (Cons t ts)
  show ?case
  proof (cases "i = k")
    case True
    then show ?thesis
      using Cons [of "Suc k"] by simp
  next
    case False
    then have "k \<le> i \<Longrightarrow> (t # ts) ! (i - k) = ts ! (i - Suc k)"
      by (simp add: nth_Cons')
    moreover have "(k \<le> i \<and> i < k + length (t # ts)) = (Suc k \<le> i \<and> i < Suc k + length ts)"
      using False by auto
    ultimately show ?thesis
      using Cons [of "Suc k"] False by auto
  qed
qed

lemma popped_write_targets: "popped (write_targets k ds msg) = []"
  by (induction ds arbitrary: k) simp_all

lemma Write_in_write_targets:
  "Write i l \<in> set (write_targets k ds msg) \<longleftrightarrow>
     k \<le> i \<and> i < k + length ds \<and> l = snd (snd msg) \<and> t_enabled (ds ! (i - k)) \<and>
     \<not> (fst (snd msg) < t_threshold (ds ! (i - k))) \<and> t_dest (ds ! (i - k)) \<noteq> None"
proof (induction ds arbitrary: k)
  case Nil
  then show ?case by simp
next
  case (Cons t ts)
  show ?case
  proof (cases "i = k")
    case True
    then show ?thesis
      using Cons [of "Suc k"] by auto
  next
    case False
    then have "k \<le> i \<Longrightarrow> (t # ts) ! (i - k) = ts ! (i - Suc k)"
      by (simp add: nth_Cons')
    moreover have "(k \<le> i \<and> i < k + length (t # ts)) = (Suc k \<le> i \<and> i < Suc k + length ts)"
      using False by auto
    ultimately show ?thesis
      using Cons [of "Suc k"] False by auto
  qed
qed

lemma teardown_write_targets: "filter is_teardown_effect (write_targets k ds msg) = []"
  by (induction ds arbitrary: k) simp_all

lemma sort_Min_remove1:
  fixes q :: "('a::linorder) list"
  assumes "q \<noteq> []"
  shows "sort q = Min (set q) # sort (remove1 (Min (set q)) q)"
proof (rule properties_for_sort)
  have m: "Min (set q) \<in> set q"
    using assms by (intro Min_in) simp_all
  then show "mset (Min (set q) # sort (remove1 (Min (set q)) q)) = mset q"
    by simp
  have "\<forall>x\<in>set (remove1 (Min (set q)) q). Min (set q) \<le> x"
    by (meson List.finite_set Min_le notin_set_remove1)
  then show "sorted (Min (set q) # sort (remove1 (Min (set q)) q))"
    by simp
qed

lemma drain_loop_sort:
  "drain_loop ds q = concat (map (\<lambda>msg. Popped msg # write_targets 0 ds msg) (sort q))"
proof (induction ds q rule: drain_loop.induct)
  case (1 ds localQueue)
  show ?case
  proof (cases "localQueue = []")
    case True
    then show ?thesis
      by (simp add: drain_loop.simps)
  next
    case False
    from "1" [OF False refl]
    have "drain_loop ds (pq_pop localQueue) =
            concat (map (\<lambda>msg. Popped msg # write_targets 0 ds msg) (sort (pq_pop localQueue)))" .
    moreover have "sort localQueue = pq_top localQueue # sort (pq_pop localQueue)"
      using sort_Min_remove1 [OF False] by (simp add: pq_top_def pq_pop_def)
    ultimately show ?thesis
      using False by (subst drain_loop.simps) (simp add: Let_def)
  qed
qed

lemma popped_dispatch:
  "popped (concat (map (\<lambda>msg. Popped msg # write_targets 0 ds msg) xs)) = xs"
  by (induction xs) (simp_all add: popped_append popped_write_targets)

lemma popped_drain_loop: "popped (drain_loop ds q) = sort q"
  by (simp add: drain_loop_sort popped_dispatch)

lemma writes_to_dispatch:
  "writes_to i (concat (map (\<lambda>msg. Popped msg # write_targets 0 ds msg) xs)) =
     map (\<lambda>msg. snd (snd msg))
       (filter (\<lambda>msg. i < length ds \<and> t_enabled (ds ! i) \<and>
                  \<not> (fst (snd msg) < t_threshold (ds ! i)) \<and> t_dest (ds ! i) \<noteq> None) xs)"
  by (induction xs) (simp_all add: writes_to_append writes_to_write_targets)

lemma writes_to_drain_loop:
  "writes_to i (drain_loop ds q) =
     map (\<lambda>msg. snd (snd msg))
       (filter (\<lambda>msg. i < length ds \<and> t_enabled (ds ! i) \<and>
                  \<not> (fst (snd msg) < t_threshold (ds ! i)) \<and> t_dest (ds ! i) \<noteq> None) (sort q))"
  by (simp add: drain_loop_sort writes_to_dispatch)

lemma teardown_drain_loop: "filter is_teardown_effect (drain_loop ds q) = []"
proof -
  have "filter is_teardown_effect (concat (map (\<lambda>msg. Popped msg # write_targets 0 ds msg) xs)) = []"
    for xs
    by (induction xs) (simp_all add: teardown_write_targets)
  then show ?thesis
    by (simp add: drain_loop_sort)
qed

lemma flush_targets_eq:
  "flush_targets k ds =
     map (\<lambda>i. Flush (k + i)) (filter (\<lambda>i. t_dest (ds ! i) \<noteq> None) [0..<length ds])"
proof (induction ds arbitrary: k)
  case Nil
  then show ?case by simp
next
  case (Cons t ts)
  have "[0..<length (t # ts)] = 0 # map Suc [0..<length ts]"
    by (simp add: map_Suc_upt upt_conv_Cons del: upt_Suc)
  then show ?case
    using Cons [of "Suc k"] by (simp add: filter_map o_def del: upt_Suc)
qed

subsection \<open>Runs\<close>

lemmas call_defs = call_def log_def category_set_def addDest_def addDest_thr_def permitDest_def
  threshold_global_def threshold_dest_def verifyCB_def errorThreshold_set_def
lemmas thread_defs = task_format_def task_push_def worker_check_def worker_swap_def
  worker_dispatch_def dtor_begin_def dtor_finish_def
lemmas start_defs = start_def Logger_ctor_def Impl_ctor_def Impl.extend_def sys.fields_def
lemmas run_defs = step_def call_defs thread_defs start_defs

lemma exec_invariant:
  assumes "exec rt es s = Some s'" and "I s"
    and "\<And>e s s'. I s \<Longrightarrow> step rt e s = Some s' \<Longrightarrow> I s'"
  shows "I s'"
  using assms(1,2)
proof (induction es arbitrary: s)
  case Nil
  then show ?case by simp
next
  case (Cons e es)
  then obtain s1 where s1: "step rt e s = Some s1" "exec rt es s1 = Some s'"
    by (auto split: option.splits)
  from assms(3) [OF Cons.prems(2) s1(1)] have "I s1" .
  with Cons.IH s1(2) show ?case by blast
qed

lemma exec_append:
  "exec rt (es1 @ es2) s = (case exec rt es1 s of None \<Rightarrow> None | Some s1 \<Rightarrow> exec rt es2 s1)"
  by (induction es1 arbitrary: s) (simp_all split: option.splits)

lemma exec_snoc:
  "exec rt (es @ [e]) s = (case exec rt es s of None \<Rightarrow> None | Some s1 \<Rightarrow> step rt e s1)"
  by (simp add: exec_append split: option.splits)

lemma step_alive: "step rt e s = Some s' \<Longrightarrow> crashed s = None \<and> lifetime s \<noteq> Destroyed"
  by (simp add: step_def split: if_splits)

lemma step_Destroyed: "lifetime s = Destroyed \<Longrightarrow> step rt e s = None"
  by (simp add: step_def)

subsection \<open>Teardown\<close>

lemma step_teardown_free:
  assumes "step rt e s = Some s'" and "filter is_teardown_effect (trace s) = []"
  shows "lifetime s' = Destroyed \<or> filter is_teardown_effect (trace s') = []"
  using assms
  by (cases e)
    (auto simp: step_def call_defs thread_defs teardown_drain_loop Let_def
      split: if_splits task.splits worker.splits sum.splits option.splits)

lemma exec_teardown_free:
  assumes "exec rt es (start gt cat) = Some s" and "lifetime s \<noteq> Destroyed"
  shows "filter is_teardown_effect (trace s) = []"
proof -
  have "lifetime s = Destroyed \<or> filter is_teardown_effect (trace s) = []"
  proof (rule exec_invariant [OF assms(1)])
    show "lifetime (start gt cat) = Destroyed \<or> filter is_teardown_effect (trace (start gt cat)) = []"
      by (simp add: start_defs)
  next
    fix e s s'
    assume "lifetime s = Destroyed \<or> filter is_teardown_effect (trace s) = []"
      and st: "step rt e s = Some s'"
    with step_alive [OF st] have "filter is_teardown_effect (trace s) = []"
      by simp
    from step_teardown_free [OF st this]
    show "lifetime s' = Destroyed \<or> filter is_teardown_effect (trace s') = []" .
  qed
  with assms(2) show ?thesis by simp
qed

lemma step_Dtor_finish:
  assumes "step rt Dtor_finish s = Some s'"
  shows "lifetime s = Joining \<and> worker s = Exited \<and> lifetime s' = Destroyed \<and>
         trace s' = trace s @
           (case m_verifCB s of
              None \<Rightarrow> []
            | Some cb \<Rightarrow>
                map Flush (filter (\<lambda>i. t_dest (m_dests s ! i) \<noteq> None) [0..<length (m_dests s)]) @
                [Callback cb (m_requestedErrors s)])"
  using assms
  by (auto simp: step_def dtor_finish_def flush_targets_eq split: if_splits option.splits)

text \<open>
  Claim C3, as stated, fails: a logger with one destination and no verification callback is
  torn down, and no destination is flushed.
\<close>

theorem teardown_without_callback_counterexample:
  "map_option trace
     (exec test_env [Call_addDest ''out'' (Some StdOutDest), Dtor_begin, Worker_check, Dtor_finish]
        (start None None)) = Some [] \<and>
   map_option lifetime
     (exec test_env [Call_addDest ''out'' (Some StdOutDest), Dtor_begin, Worker_check, Dtor_finish]
        (start None None)) = Some Destroyed \<and>
   map_option (map t_dest \<circ> m_dests)
     (exec test_env [Call_addDest ''out'' (Some StdOutDest), Dtor_begin, Worker_check, Dtor_finish]
        (start None None)) = Some [Some StdOutDest]"
  by (simp add: run_defs)

text \<open>
  Claim C3, amended. The rest of the destructor runs only after the worker has left its
  loop, and before it no destination was flushed and no callback called. If a verification
  callback is set, \<^verbatim>\<open>flush()\<close> is called on every target that holds a destination, in the order
  of registration, and only then the callback is called, once, with the final count of
  requested errors. If no callback is set, nothing is flushed. Nothing happens afterwards.
\<close>

theorem teardown_flush_then_callback:
  assumes "exec rt es (start gt cat) = Some s" and "step rt Dtor_finish s = Some s'"
  shows "worker s = Exited \<and>
         filter is_teardown_effect (trace s) = [] \<and>
         trace s' = trace s @
           (case m_verifCB s of
              None \<Rightarrow> []
            | Some cb \<Rightarrow>
                map Flush (filter (\<lambda>i. t_dest (m_dests s ! i) \<noteq> None) [0..<length (m_dests s)]) @
                [Callback cb (m_requestedErrors s)]) \<and>
         (\<forall>e. step rt e s' = None)"
proof -
  from step_Dtor_finish [OF assms(2)] step_alive [OF assms(2)]
  have a: "worker s = Exited" "lifetime s \<noteq> Destroyed" "lifetime s' = Destroyed"
    and b: "trace s' = trace s @
           (case m_verifCB s of
              None \<Rightarrow> []
            | Some cb \<Rightarrow>
                map Flush (filter (\<lambda>i. t_dest (m_dests s ! i) \<noteq> None) [0..<length (m_dests s)]) @
                [Callback cb (m_requestedErrors s)])"
    by simp_all
  from exec_teardown_free [OF assms(1) a(2)] have "filter is_teardown_effect (trace s) = []" .
  moreover from a(3) have "\<forall>e. step rt e s' = None"
    by (simp add: step_Destroyed)
  ultimately show ?thesis
    using a(1) b by blast
qed

theorem teardown_flush_then_callback_witness:
  "map_option trace
     (exec test_env
        ([Call_verifyCB (Some 7), Call_addDest ''out'' (Some StdOutDest), Call_addDest ''null'' None,
          Call_addDest_thr ''err'' Error (Some StdErrDest), Dtor_begin, Worker_check] @ [Dtor_finish])
        (start None None)) = Some [Flush 0, Flush 2, Callback 7 0]"
proof -
  let ?es = "[Call_verifyCB (Some 7), Call_addDest ''out'' (Some StdOutDest),
              Call_addDest ''null'' None, Call_addDest_thr ''err'' Error (Some StdErrDest),
              Dtor_begin, Worker_check]"
  obtain s where s: "exec test_env ?es (start None None) = Some s"
    and s_facts: "m_verifCB s = Some 7" "trace s = []" "m_requestedErrors s = 0"
      "m_dests s =
         [\<lparr>t_name = ''out'', t_dest = Some StdOutDest, t_threshold = Info, t_enabled = True\<rparr>,
          \<lparr>t_name = ''null'', t_dest = None, t_threshold = Info, t_enabled = True\<rparr>,
          \<lparr>t_name = ''err'', t_dest = Some StdErrDest, t_threshold = Error, t_enabled = True\<rparr>]"
    by (simp add: run_defs)
  obtain s' where s': "step test_env Dtor_finish s = Some s'"
    using s by (auto simp: run_defs)
  from teardown_flush_then_callback [OF s s']
  have "trace s' = [Flush 0, Flush 2, Callback 7 0]"
    using s_facts by (simp add: upt_rec numeral_3_eq_3)
  moreover have "exec test_env (?es @ [Dtor_finish]) (start None None) = Some s'"
    unfolding exec_snoc s using s' by simp
  ultimately show ?thesis
    by simp
qed

subsection \<open>The count of requested errors\<close>

lemma step_requestedErrors:
  assumes "step rt e s = Some s'"
  shows "m_requestedErrors s' = m_requestedErrors s + (if counted e s then 1 else 0)"
  using assms
  by (cases e)
    (auto simp: step_def call_defs thread_defs Let_def
      split: if_splits task.splits worker.splits sum.splits option.splits)

lemma exec_requestedErrors:
  assumes "exec rt es s = Some s'"
  shows "m_requestedErrors s' = m_requestedErrors s + of_nat (requested_errors rt es s)"
  using assms
proof (induction es arbitrary: s)
  case Nil
  then show ?case by simp
next
  case (Cons e es)
  then obtain s1 where s1: "step rt e s = Some s1" "exec rt es s1 = Some s'"
    by (auto split: option.splits)
  from Cons.IH [OF s1(2)] step_requestedErrors [OF s1(1)] s1(1)
  show ?case by simp
qed

text \<open>
  Claim C4. When a verification callback is registered at teardown, the last thing the
  logger does is to call it, and the count it passes is the number of \<^verbatim>\<open>log()\<close> calls of the
  run that were made, while a callback was registered, with a priority at or above both the
  error threshold and the global threshold of that moment. The counter is a \<^verbatim>\<open>size_t\<close>: it
  holds the number as a 64-bit word, which is the number itself whenever the number fits.
\<close>

theorem callback_receives_requested_errors:
  assumes "exec rt es (start gt cat) = Some s"
    and "step rt Dtor_finish s = Some s'"
    and "m_verifCB s = Some cb"
  shows "\<exists>n. last (trace s') = Callback cb n \<and>
              filter is_teardown_effect (butlast (trace s')) =
                map Flush (filter (\<lambda>i. t_dest (m_dests s ! i) \<noteq> None) [0..<length (m_dests s)]) \<and>
              n = of_nat (requested_errors rt es (start gt cat)) \<and>
              (requested_errors rt es (start gt cat) < 2 ^ 64 \<longrightarrow>
                 unat n = requested_errors rt es (start gt cat))"
proof -
  have n: "m_requestedErrors s = of_nat (requested_errors rt es (start gt cat))"
    using exec_requestedErrors [OF assms(1)] by (simp add: start_defs)
  then have "requested_errors rt es (start gt cat) < 2 ^ 64 \<longrightarrow>
               unat (m_requestedErrors s) = requested_errors rt es (start gt cat)"
    by (simp add: unat_of_nat)
  moreover from step_Dtor_finish [OF assms(2)] assms(3)
  have tr: "trace s' = trace s @
      map Flush (filter (\<lambda>i. t_dest (m_dests s ! i) \<noteq> None) [0..<length (m_dests s)]) @
      [Callback cb (m_requestedErrors s)]"
    by simp
  moreover have "filter is_teardown_effect (trace s) = []"
    using exec_teardown_free [OF assms(1)] step_alive [OF assms(2)] by simp
  ultimately show ?thesis
    using n by (simp add: butlast_append filter_map o_def)
qed

theorem callback_receives_requested_errors_witness:
  "map_option (last \<circ> trace)
     (exec test_env
        ([Call_log \<lparr>c_message = ''m1'', c_pri = Error, c_function = ''f'', c_file = ''a.cpp'',
                     c_line = 1, c_threadId = 1\<rparr> 10,
          Call_verifyCB (Some 7),
          Call_log \<lparr>c_message = ''m2'', c_pri = Info, c_function = ''f'', c_file = ''a.cpp'',
                     c_line = 2, c_threadId = 1\<rparr> 20,
          Call_log \<lparr>c_message = ''m3'', c_pri = Error, c_function = ''f'', c_file = ''a.cpp'',
                     c_line = 3, c_threadId = 1\<rparr> 30,
          Call_threshold Critical,
          Call_log \<lparr>c_message = ''m4'', c_pri = Error, c_function = ''f'', c_file = ''a.cpp'',
                     c_line = 4, c_threadId = 1\<rparr> 40,
          Call_log \<lparr>c_message = ''m5'', c_pri = Critical, c_function = ''f'', c_file = ''a.cpp'',
                     c_line = 5, c_threadId = 1\<rparr> 50,
          Dtor_begin, Worker_check] @ [Dtor_finish])
        (start None None)) = Some (Callback 7 2)"
proof -
  let ?es = "[Call_log \<lparr>c_message = ''m1'', c_pri = Error, c_function = ''f'', c_file = ''a.cpp'',
                     c_line = 1, c_threadId = 1\<rparr> 10,
          Call_verifyCB (Some 7),
          Call_log \<lparr>c_message = ''m2'', c_pri = Info, c_function = ''f'', c_file = ''a.cpp'',
                     c_line = 2, c_threadId = 1\<rparr> 20,
          Call_log \<lparr>c_message = ''m3'', c_pri = Error, c_function = ''f'', c_file = ''a.cpp'',
                     c_line = 3, c_threadId = 1\<rparr> 30,
          Call_threshold Critical,
          Call_log \<lparr>c_message = ''m4'', c_pri = Error, c_function = ''f'', c_file = ''a.cpp'',
                     c_line = 4, c_threadId = 1\<rparr> 40,
          Call_log \<lparr>c_message = ''m5'', c_pri = Critical, c_function = ''f'', c_file = ''a.cpp'',
                     c_line = 5, c_threadId = 1\<rparr> 50,
          Dtor_begin, Worker_check]"
  obtain s where s: "exec test_env ?es (start None None) = Some s" and cb: "m_verifCB s = Some 7"
    by (simp add: run_defs Priority_defs)
  obtain s' where s': "step test_env Dtor_finish s = Some s'"
    using s by (auto simp: run_defs Priority_defs)
  have n: "requested_errors test_env ?es (start None None) = 2"
    by (simp add: run_defs Priority_defs)
  from callback_receives_requested_errors [OF s s' cb] n
  obtain k where k: "last (trace s') = Callback 7 k" "unat k = 2"
    by auto
  then have "k = 2"
    by (simp add: word_unat_eq_iff)
  moreover have "exec test_env (?es @ [Dtor_finish]) (start None None) = Some s'"
    unfolding exec_snoc s using s' by simp
  ultimately show ?thesis
    using k by simp
qed

subsection \<open>The exit of the worker\<close>

lemma popped_flush_targets: "popped (flush_targets k ds) = []"
  by (induction ds arbitrary: k) simp_all







subsection \<open>The layout of a line\<close>

lemma stream_Priority_Inr:
  assumes "stream_Priority os p = Inr os'"
  shows "\<exists>pn. pn \<in> {''Debug'', ''Info'', ''Warning'', ''Error'', ''Critical''} \<and>
              stream_Priority [] p = Inr pn \<and> os' = os @ pn"
  using assms by (auto simp: stream_Priority_def split: if_splits)

lemma format_line_Inr:
  assumes "format_line rt cat now c = Inr l"
  shows "\<exists>tm pn. gmtime_r rt (to_time_t now) = Some tm \<and>
           pn \<in> {''Debug'', ''Info'', ''Warning'', ''Error'', ''Critical''} \<and>
           stream_Priority [] (c_pri c) = Inr pn \<and>
           l = put_time rt tm @ ''.'' @ dec_int (now - to_seconds now * 1000000000) @ '' '' @
               thread_id_text rt (c_threadId c) @ '' '' @ cat @ '' '' @ c_function c @ '' '' @
               pn @ '': '' @ c_message c @ '' ('' @ c_file c @ '':'' @ dec_int (c_line c) @
               '')'' @ [CHR 0x0A] \<and>
           last l = CHR 0x0A"
proof -
  from assms obtain tm where tm: "gmtime_r rt (to_time_t now) = Some tm"
    by (cases "gmtime_r rt (to_time_t now)") (simp_all add: format_line_def)
  have eq: "to_seconds now * 1000 * 1000 * 1000 = to_seconds now * 1000000000"
    by simp
  let ?os10 = "put_time rt tm @ ''.'' @ dec_int (now - to_seconds now * 1000000000) @ '' '' @
               thread_id_text rt (c_threadId c) @ '' '' @ cat @ '' '' @ c_function c @ '' ''"
  have fl: "format_line rt cat now c =
      (case stream_Priority ?os10 (c_pri c) of
         Inl e \<Rightarrow> Inl e
       | Inr os11 \<Rightarrow> Inr (os11 @ '': '' @ c_message c @ '' ('' @ c_file c @ '':'' @
                           dec_int (c_line c) @ '')'' @ [CHR 0x0A]))"
    unfolding format_line_def Let_def eq tm by (simp split: sum.splits)
  from assms obtain os11 where os11: "stream_Priority ?os10 (c_pri c) = Inr os11"
    and l: "l = os11 @ '': '' @ c_message c @ '' ('' @ c_file c @ '':'' @ dec_int (c_line c) @
               '')'' @ [CHR 0x0A]"
    unfolding fl by (cases "stream_Priority ?os10 (c_pri c)") simp_all
  from stream_Priority_Inr [OF os11] obtain pn where
    "pn \<in> {''Debug'', ''Info'', ''Warning'', ''Error'', ''Critical''}"
    "stream_Priority [] (c_pri c) = Inr pn" "os11 = ?os10 @ pn"
    by blast
  with tm l show ?thesis
    by simp
qed

lemma Write_in_drain_loop:
  assumes "Write i l \<in> set (drain_loop ds q)"
  shows "\<exists>t p. (t, p, l) \<in> set q"
proof -
  from assms obtain msg where "msg \<in> set q" "Write i l \<in> set (write_targets 0 ds msg)"
    by (auto simp: drain_loop_sort)
  then have "msg \<in> set q" "l = snd (snd msg)"
    by (simp_all add: Write_in_write_targets)
  then show ?thesis
    by (metis prod.collapse)
qed

lemma Write_in_flush_targets: "Write i l \<notin> set (flush_targets k ds)"
  by (induction ds arbitrary: k) simp_all

subsection \<open>Chronological order across batches\<close>

text \<open>
  Claim C1 fails on the code. Two calls of \<^verbatim>\<open>log\<close> capture the times 10 and 20, in this
  order. The task of the second call pushes its element first and the worker drains it;
  then the task of the first call pushes and the worker drains again. Both destinations
  receive the line of time 20 before the line of time 10: the same sequence, but not in
  ascending order of the captured times.
\<close>

theorem chronological_order_violated:
  "map_option (map fst \<circ> popped \<circ> trace)
     (exec test_env
        [Call_addDest ''all_logs1'' (Some (FileDest ''all_logs1.txt'')),
         Call_addDest ''all_logs2'' (Some (FileDest ''all_logs2.txt'')),
         Call_log \<lparr>c_message = ''first'', c_pri = Info, c_function = ''f'', c_file = ''a.cpp'',
                    c_line = 1, c_threadId = 1\<rparr> 10,
         Call_log \<lparr>c_message = ''second'', c_pri = Info, c_function = ''g'', c_file = ''a.cpp'',
                    c_line = 2, c_threadId = 2\<rparr> 20,
         Task_format 1, Task_push 1, Worker_check, Worker_swap, Worker_dispatch,
         Task_format 0, Task_push 0, Worker_check, Worker_swap, Worker_dispatch]
        (start None None)) = Some [20, 10] \<and>
   map_option (writes_to 0 \<circ> trace)
     (exec test_env
        [Call_addDest ''all_logs1'' (Some (FileDest ''all_logs1.txt'')),
         Call_addDest ''all_logs2'' (Some (FileDest ''all_logs2.txt'')),
         Call_log \<lparr>c_message = ''first'', c_pri = Info, c_function = ''f'', c_file = ''a.cpp'',
                    c_line = 1, c_threadId = 1\<rparr> 10,
         Call_log \<lparr>c_message = ''second'', c_pri = Info, c_function = ''g'', c_file = ''a.cpp'',
                    c_line = 2, c_threadId = 2\<rparr> 20,
         Task_format 1, Task_push 1, Worker_check, Worker_swap, Worker_dispatch,
         Task_format 0, Task_push 0, Worker_check, Worker_swap, Worker_dispatch]
        (start None None)) =
     Some [''Jan  1 00:00:00.20 2 global g Info: second (a.cpp:2)'' @ [CHR 0x0A],
           ''Jan  1 00:00:00.10 1 global f Info: first (a.cpp:1)'' @ [CHR 0x0A]] \<and>
   map_option (writes_to 1 \<circ> trace)
     (exec test_env
        [Call_addDest ''all_logs1'' (Some (FileDest ''all_logs1.txt'')),
         Call_addDest ''all_logs2'' (Some (FileDest ''all_logs2.txt'')),
         Call_log \<lparr>c_message = ''first'', c_pri = Info, c_function = ''f'', c_file = ''a.cpp'',
                    c_line = 1, c_threadId = 1\<rparr> 10,
         Call_log \<lparr>c_message = ''second'', c_pri = Info, c_function = ''g'', c_file = ''a.cpp'',
                    c_line = 2, c_threadId = 2\<rparr> 20,
         Task_format 1, Task_push 1, Worker_check, Worker_swap, Worker_dispatch,
         Task_format 0, Task_push 0, Worker_check, Worker_swap, Worker_dispatch]
        (start None None)) =
     Some [''Jan  1 00:00:00.20 2 global g Info: second (a.cpp:2)'' @ [CHR 0x0A],
           ''Jan  1 00:00:00.10 1 global f Info: first (a.cpp:1)'' @ [CHR 0x0A]]"
  by (simp add: run_defs Priority_defs format_line_def test_env_def stream_Priority_def
      to_time_t_def to_seconds_def pq_push_def drain_loop_sort dec_int_def dec_nat.simps)

subsection \<open>The order within one batch\<close>

text \<open>
  What the priority queue does achieve: the records of one batch are taken in ascending
  order of their captured times, and every target receives, in that order, the lines of
  the records it is eligible for. Targets that agree in their enabled flag, their threshold
  and in holding a destination therefore receive the same lines from a batch.
\<close>

lemma sorted_fst_sort:
  fixes xs :: "queue_element list"
  shows "sorted (map fst (sort xs))"
proof -
  have "sorted (map fst ys)" if "sorted ys" for ys :: "queue_element list"
    using that
  proof (induction ys)
    case Nil
    then show ?case by simp
  next
    case (Cons y ys)
    then have "\<forall>z\<in>set ys. y \<le> z" and "sorted (map fst ys)"
      by simp_all
    moreover have "fst y \<le> fst z" if "y \<le> z" for z
      using that by (cases y, cases z) (auto simp: less_eq_prod_def)
    ultimately show ?case
      by auto
  qed
  then show ?thesis
    by simp
qed

lemma batch_in_time_order:
  assumes "step rt Worker_dispatch s = Some s'"
  shows "\<exists>lq. worker s = Holding lq \<and>
           popped (trace s') = popped (trace s) @ sort lq \<and>
           sorted (map fst (sort lq)) \<and>
           (\<forall>i. writes_to i (trace s') = writes_to i (trace s) @
              map (\<lambda>msg. snd (snd msg))
                (filter (\<lambda>msg. i < length (m_dests s) \<and> t_enabled (m_dests s ! i) \<and>
                            \<not> (fst (snd msg) < t_threshold (m_dests s ! i)) \<and>
                            t_dest (m_dests s ! i) \<noteq> None) (sort lq)))"
proof -
  from assms obtain lq where lq: "worker s = Holding lq" "s' = worker_dispatch lq s"
    by (auto simp: step_def split: if_splits worker.splits)
  have "popped (trace s') = popped (trace s) @ sort lq"
    unfolding lq(2) worker_dispatch_def by (simp add: popped_append popped_drain_loop)
  moreover have "\<forall>i. writes_to i (trace s') = writes_to i (trace s) @
              map (\<lambda>msg. snd (snd msg))
                (filter (\<lambda>msg. i < length (m_dests s) \<and> t_enabled (m_dests s ! i) \<and>
                            \<not> (fst (snd msg) < t_threshold (m_dests s ! i)) \<and>
                            t_dest (m_dests s ! i) \<noteq> None) (sort lq))"
    unfolding lq(2) worker_dispatch_def by (simp add: writes_to_append writes_to_drain_loop)
  ultimately show ?thesis
    using lq(1) sorted_fst_sort by blast
qed

subsection \<open>The condition of a dispatch\<close>

text \<open>
  Claim C2, as stated, fails: the only target was registered with a null destination
  pointer. It is enabled, its threshold is \<open>Debug\<close>, and the record of priority \<open>Debug\<close>
  passed the global threshold \<open>Debug\<close> and is dispatched, yet nothing is written.
\<close>

theorem null_destination_counterexample:
  "map_option (map (fst \<circ> snd) \<circ> popped \<circ> trace)
     (exec test_env
        [Call_addDest ''none'' None,
         Call_log \<lparr>c_message = ''hello'', c_pri = Debug, c_function = ''f'', c_file = ''a.cpp'',
                    c_line = 1, c_threadId = 1\<rparr> 10,
         Task_format 0, Task_push 0, Worker_check, Worker_swap, Worker_dispatch]
        (start (Some Debug) None)) = Some [Debug] \<and>
   map_option (map t_enabled \<circ> m_dests)
     (exec test_env
        [Call_addDest ''none'' None,
         Call_log \<lparr>c_message = ''hello'', c_pri = Debug, c_function = ''f'', c_file = ''a.cpp'',
                    c_line = 1, c_threadId = 1\<rparr> 10,
         Task_format 0, Task_push 0, Worker_check, Worker_swap, Worker_dispatch]
        (start (Some Debug) None)) = Some [True] \<and>
   map_option (map t_threshold \<circ> m_dests)
     (exec test_env
        [Call_addDest ''none'' None,
         Call_log \<lparr>c_message = ''hello'', c_pri = Debug, c_function = ''f'', c_file = ''a.cpp'',
                    c_line = 1, c_threadId = 1\<rparr> 10,
         Task_format 0, Task_push 0, Worker_check, Worker_swap, Worker_dispatch]
        (start (Some Debug) None)) = Some [Debug] \<and>
   map_option (writes_to 0 \<circ> trace)
     (exec test_env
        [Call_addDest ''none'' None,
         Call_log \<lparr>c_message = ''hello'', c_pri = Debug, c_function = ''f'', c_file = ''a.cpp'',
                    c_line = 1, c_threadId = 1\<rparr> 10,
         Task_format 0, Task_push 0, Worker_check, Worker_swap, Worker_dispatch]
        (start (Some Debug) None)) = Some []"
  by (simp add: run_defs Priority_defs format_line_def test_env_def stream_Priority_def
      to_time_t_def to_seconds_def pq_push_def drain_loop_sort dec_int_def dec_nat.simps)

lemma elems_from_call:
  assumes "call f s = Some s'" and "elems_from C F s"
    and "tasks (f s) = tasks s" and "m_queue (f s) = m_queue s" and "worker (f s) = worker s"
    and "trace (f s) = trace s"
  shows "elems_from C F s'"
proof -
  from assms(1) have s': "s' = f s"
    by (simp add: call_def split: if_splits)
  from assms(2-6) show ?thesis
    unfolding s' elems_from_def by simp
qed

lemma step_elems_from:
  assumes st: "step rt e s = Some s'" and inv: "elems_from C F s"
    and monoC: "\<And>c now. C c now \<Longrightarrow> C' c now"
    and monoF: "\<And>el. F el \<Longrightarrow> F' el"
    and new: "\<And>c now. e = Call_log c now \<Longrightarrow> m_globalThreshold s \<le> c_pri c \<Longrightarrow> C' c now"
    and fmt: "\<And>c now l i. e = Task_format i \<Longrightarrow> i < length (tasks s) \<Longrightarrow>
                tasks s ! i = Captured c now \<Longrightarrow> C c now \<Longrightarrow>
                format_line rt (m_category s) now c = Inr l \<Longrightarrow> F' (now, c_pri c, l)"
  shows "elems_from C' F' s'"
proof -
  from st have ev: "step_event rt e s = Some s'"
    by (simp add: step_def split: if_splits)
  from inv have C_tasks: "\<And>c now. Captured c now \<in> set (tasks s) \<Longrightarrow> C c now"
    and F_tasks: "\<And>el. Formatted el \<in> set (tasks s) \<Longrightarrow> F el"
    and F_queue: "\<And>el. el \<in> set (m_queue s) \<Longrightarrow> F el"
    and F_held: "\<And>el. el \<in> set (held (worker s)) \<Longrightarrow> F el"
    and F_trace: "\<And>el. el \<in> set (popped (trace s)) \<Longrightarrow> F el"
    unfolding elems_from_def by blast+
  have inv': "elems_from C' F' s"
    unfolding elems_from_def
    using C_tasks F_tasks F_queue F_held F_trace monoC monoF by blast
  show ?thesis
  proof (cases e)
    case (Call_log c now)
    with ev have s': "s' = log c now s"
      by (simp add: call_def split: if_splits)
    show ?thesis
    proof (cases "c_pri c < m_globalThreshold s")
      case True
      with s' inv' show ?thesis
        by (simp add: log_def)
    next
      case False
      then have "C' c now"
        using new [OF Call_log] by simp
      with False inv' show ?thesis
        unfolding s' elems_from_def log_def Let_def by auto
    qed
  next
    case (Call_category n)
    with ev have "call (category_set n) s = Some s'"
      by simp
    then show ?thesis
      by (rule elems_from_call [OF _ inv']) (simp_all add: category_set_def)
  next
    case (Call_addDest n d)
    with ev have "call (addDest n d) s = Some s'"
      by simp
    then show ?thesis
      by (rule elems_from_call [OF _ inv']) (simp_all add: addDest_def)
  next
    case (Call_addDest_thr n p d)
    with ev have "call (addDest_thr n p d) s = Some s'"
      by simp
    then show ?thesis
      by (rule elems_from_call [OF _ inv']) (simp_all add: addDest_thr_def)
  next
    case (Call_permitDest n b)
    with ev have "call (permitDest n b) s = Some s'"
      by simp
    then show ?thesis
      by (rule elems_from_call [OF _ inv']) (simp_all add: permitDest_def)
  next
    case (Call_threshold p)
    with ev have "call (threshold_global p) s = Some s'"
      by simp
    then show ?thesis
      by (rule elems_from_call [OF _ inv']) (simp_all add: threshold_global_def)
  next
    case (Call_threshold_dest n p)
    with ev have "call (threshold_dest n p) s = Some s'"
      by simp
    then show ?thesis
      by (rule elems_from_call [OF _ inv']) (simp_all add: threshold_dest_def)
  next
    case (Call_verifyCB cb)
    with ev have "call (verifyCB cb) s = Some s'"
      by simp
    then show ?thesis
      by (rule elems_from_call [OF _ inv']) (simp_all add: verifyCB_def)
  next
    case (Call_errorThreshold p)
    with ev have "call (errorThreshold_set p) s = Some s'"
      by simp
    then show ?thesis
      by (rule elems_from_call [OF _ inv']) (simp_all add: errorThreshold_set_def)
  next
    case Dtor_begin
    with ev have "call dtor_begin s = Some s'"
      by simp
    then show ?thesis
      by (rule elems_from_call [OF _ inv']) (simp_all add: dtor_begin_def)
  next
    case (Task_format i)
    with ev obtain c now where i: "i < length (tasks s)" "tasks s ! i = Captured c now"
      "s' = task_format rt i c now s"
      by (auto split: if_splits task.splits)
    then have "Captured c now \<in> set (tasks s)"
      by (metis nth_mem)
    then have C: "C c now"
      by (rule C_tasks)
    show ?thesis
    proof (cases "format_line rt (m_category s) now c")
      case (Inl err)
      with i inv' show ?thesis
        by (simp add: task_format_def elems_from_def)
    next
      case (Inr l)
      have new_el: "F' (now, c_pri c, l)"
        by (rule fmt [OF Task_format i(1) i(2) C Inr])
      have sub: "set ((tasks s)[i := Formatted (now, c_pri c, l)]) \<subseteq>
                   insert (Formatted (now, c_pri c, l)) (set (tasks s))"
        by (rule set_update_subset_insert)
      have "C' c' now'" if "Captured c' now' \<in> set ((tasks s)[i := Formatted (now, c_pri c, l)])"
        for c' now'
      proof -
        from that sub have "Captured c' now' \<in> set (tasks s)"
          by auto
        then show ?thesis
          by (intro monoC C_tasks)
      qed
      moreover have "F' el" if "Formatted el \<in> set ((tasks s)[i := Formatted (now, c_pri c, l)])"
        for el
      proof -
        from that sub have "el = (now, c_pri c, l) \<or> Formatted el \<in> set (tasks s)"
          by auto
        then show ?thesis
        proof
          assume "el = (now, c_pri c, l)"
          with new_el show ?thesis
            by simp
        next
          assume "Formatted el \<in> set (tasks s)"
          then show ?thesis
            by (intro monoF F_tasks)
        qed
      qed
      ultimately show ?thesis
        using F_queue F_held F_trace monoF
        unfolding elems_from_def i(3) task_format_def Inr by simp
    qed
  next
    case (Task_push i)
    with ev obtain el where i: "i < length (tasks s)" "tasks s ! i = Formatted el"
      "s' = task_push i el s"
      by (auto split: if_splits task.splits)
    then have "Formatted el \<in> set (tasks s)"
      by (metis nth_mem)
    then have el: "F' el"
      by (intro monoF F_tasks)
    have sub: "set ((tasks s)[i := Finished]) \<subseteq> insert Finished (set (tasks s))"
      by (rule set_update_subset_insert)
    have "C' c' now'" if "Captured c' now' \<in> set ((tasks s)[i := Finished])" for c' now'
    proof -
      from that sub have "Captured c' now' \<in> set (tasks s)"
        by auto
      then show ?thesis
        by (intro monoC C_tasks)
    qed
    moreover have "F' x" if "Formatted x \<in> set ((tasks s)[i := Finished])" for x
    proof -
      from that sub have "Formatted x \<in> set (tasks s)"
        by auto
      then show ?thesis
        by (intro monoF F_tasks)
    qed
    ultimately show ?thesis
      using el F_queue F_held F_trace monoF
      unfolding elems_from_def i(3) task_push_def pq_push_def by auto
  next
    case Worker_check
    with ev have "s' = worker_check s" "worker s = LoopHead"
      by (auto split: if_splits)
    with inv' show ?thesis
      unfolding elems_from_def worker_check_def by simp
  next
    case Worker_swap
    with ev have "s' = worker_swap s" "worker s = Waiting"
      by (auto split: if_splits)
    with inv' show ?thesis
      unfolding elems_from_def worker_swap_def by simp
  next
    case Worker_dispatch
    with ev obtain lq where lq: "worker s = Holding lq" "s' = worker_dispatch lq s"
      by (auto split: worker.splits)
    have "popped (trace s') = popped (trace s) @ sort lq"
      unfolding lq(2) worker_dispatch_def by (simp add: popped_append popped_drain_loop)
    with inv' lq show ?thesis
      unfolding elems_from_def worker_dispatch_def by auto
  next
    case Dtor_finish
    with ev have "s' = dtor_finish s"
      by (auto split: if_splits)
    with inv' show ?thesis
      unfolding elems_from_def dtor_finish_def
      by (simp add: popped_append popped_flush_targets split: option.splits)
  qed
qed

lemma passed_gate_snoc:
  assumes "passed_gate rt s0 es c now"
  shows "passed_gate rt s0 (es @ [e]) c now"
proof -
  from assms obtain es1 es2 s1 where "es = es1 @ Call_log c now # es2"
    "exec rt es1 s0 = Some s1" "m_globalThreshold s1 \<le> c_pri c"
    unfolding passed_gate_def by blast
  then have "es @ [e] = es1 @ Call_log c now # (es2 @ [e])"
    by simp
  with \<open>exec rt es1 s0 = Some s1\<close> \<open>m_globalThreshold s1 \<le> c_pri c\<close> show ?thesis
    unfolding passed_gate_def by blast
qed

lemma record_of_call_snoc:
  assumes "record_of_call rt s0 es el"
  shows "record_of_call rt s0 (es @ [e]) el"
  using assms unfolding record_of_call_def by (blast intro: passed_gate_snoc)

lemma exec_record_of_call:
  assumes "exec rt es (start gt cat) = Some s"
  shows "elems_from (passed_gate rt (start gt cat) es) (record_of_call rt (start gt cat) es) s"
  using assms
proof (induction es arbitrary: s rule: rev_induct)
  case Nil
  then have "s = start gt cat"
    by simp
  then show ?case
    by (simp add: elems_from_def start_defs)
next
  case (snoc e es)
  then obtain s1 where s1: "exec rt es (start gt cat) = Some s1" "step rt e s1 = Some s"
    by (auto simp: exec_snoc split: option.splits)
  show ?case
  proof (rule step_elems_from [OF s1(2) snoc.IH [OF s1(1)]])
    fix c now
    assume "passed_gate rt (start gt cat) es c now"
    then show "passed_gate rt (start gt cat) (es @ [e]) c now"
      by (rule passed_gate_snoc)
  next
    fix el
    assume "record_of_call rt (start gt cat) es el"
    then show "record_of_call rt (start gt cat) (es @ [e]) el"
      by (rule record_of_call_snoc)
  next
    fix c now
    assume "e = Call_log c now" and "m_globalThreshold s1 \<le> c_pri c"
    with s1(1) show "passed_gate rt (start gt cat) (es @ [e]) c now"
      unfolding passed_gate_def by blast
  next
    fix c now l i
    assume "passed_gate rt (start gt cat) es c now"
      and "format_line rt (m_category s1) now c = Inr l"
    then have "passed_gate rt (start gt cat) (es @ [e]) c now"
      and "format_line rt (m_category s1) now c = Inr l"
      by (simp_all add: passed_gate_snoc)
    then show "record_of_call rt (start gt cat) (es @ [e]) (now, c_pri c, l)"
      unfolding record_of_call_def by auto
  qed
qed

text \<open>
  Claim C2, amended. When the worker dispatches a batch, it takes the records of the batch
  in ascending order and writes the line of a record to the target at position \<open>i\<close> if and
  only if, at that moment, the target is enabled, the priority of the record is not below
  the threshold of the target, and the target holds a destination (its pointer is not
  null). Every record of the batch stems from a call of \<^verbatim>\<open>log\<close> whose priority was not below
  the global threshold when the call was made.
\<close>

theorem dispatch_condition:
  assumes "exec rt es (start gt cat) = Some s" and "step rt Worker_dispatch s = Some s'"
  shows "\<exists>lq. worker s = Holding lq \<and>
           trace s' = trace s @
             concat (map (\<lambda>msg. Popped msg # write_targets 0 (m_dests s) msg) (sort lq)) \<and>
           (\<forall>msg i l. Write i l \<in> set (write_targets 0 (m_dests s) msg) \<longleftrightarrow>
              i < length (m_dests s) \<and> l = snd (snd msg) \<and> t_enabled (m_dests s ! i) \<and>
              t_threshold (m_dests s ! i) \<le> fst (snd msg) \<and> t_dest (m_dests s ! i) \<noteq> None) \<and>
           (\<forall>msg \<in> set lq. \<exists>c cat'. passed_gate rt (start gt cat) es c (fst msg) \<and>
              c_pri c = fst (snd msg) \<and> format_line rt cat' (fst msg) c = Inr (snd (snd msg)))"
proof -
  from assms(2) obtain lq where lq: "worker s = Holding lq" "s' = worker_dispatch lq s"
    by (auto simp: step_def split: if_splits worker.splits)
  have "trace s' = trace s @
          concat (map (\<lambda>msg. Popped msg # write_targets 0 (m_dests s) msg) (sort lq))"
    unfolding lq(2) worker_dispatch_def by (simp add: drain_loop_sort)
  moreover have "\<forall>msg i l. Write i l \<in> set (write_targets 0 (m_dests s) msg) \<longleftrightarrow>
              i < length (m_dests s) \<and> l = snd (snd msg) \<and> t_enabled (m_dests s ! i) \<and>
              t_threshold (m_dests s ! i) \<le> fst (snd msg) \<and> t_dest (m_dests s ! i) \<noteq> None"
    by (simp add: Write_in_write_targets not_less)
  moreover have "\<forall>msg \<in> set lq. record_of_call rt (start gt cat) es msg"
    using exec_record_of_call [OF assms(1)] lq(1) unfolding elems_from_def by auto
  then have "\<forall>msg \<in> set lq. \<exists>c cat'. passed_gate rt (start gt cat) es c (fst msg) \<and>
              c_pri c = fst (snd msg) \<and> format_line rt cat' (fst msg) c = Inr (snd (snd msg))"
    unfolding record_of_call_def .
  ultimately show ?thesis
    using lq(1) by blast
qed

theorem dispatch_condition_witness:
  "\<exists>s s'.
     exec test_env
       [Call_addDest ''all'' (Some StdOutDest),
        Call_addDest_thr ''err'' Error (Some StdErrDest),
        Call_addDest ''off'' (Some (FileDest ''off.txt'')),
        Call_permitDest ''off'' False,
        Call_addDest ''none'' None,
        Call_log \<lparr>c_message = ''hello'', c_pri = Warning, c_function = ''f'', c_file = ''a.cpp'',
                   c_line = 1, c_threadId = 1\<rparr> 10,
        Task_format 0, Task_push 0, Worker_check, Worker_swap]
       (start (Some Debug) None) = Some s \<and>
     step test_env Worker_dispatch s = Some s' \<and>
     trace s' =
       [Popped (10, Warning, ''Jan  1 00:00:00.10 1 global f Warning: hello (a.cpp:1)'' @ [CHR 0x0A]),
        Write 0 (''Jan  1 00:00:00.10 1 global f Warning: hello (a.cpp:1)'' @ [CHR 0x0A])] \<and>
     (\<exists>c cat'.
        passed_gate test_env (start (Some Debug) None)
          [Call_addDest ''all'' (Some StdOutDest),
           Call_addDest_thr ''err'' Error (Some StdErrDest),
           Call_addDest ''off'' (Some (FileDest ''off.txt'')),
           Call_permitDest ''off'' False,
           Call_addDest ''none'' None,
           Call_log \<lparr>c_message = ''hello'', c_pri = Warning, c_function = ''f'', c_file = ''a.cpp'',
                      c_line = 1, c_threadId = 1\<rparr> 10,
           Task_format 0, Task_push 0, Worker_check, Worker_swap] c 10 \<and>
        c_pri c = Warning \<and>
        format_line test_env cat' 10 c =
          Inr (''Jan  1 00:00:00.10 1 global f Warning: hello (a.cpp:1)'' @ [CHR 0x0A]))"
proof -
  let ?es = "[Call_addDest ''all'' (Some StdOutDest),
        Call_addDest_thr ''err'' Error (Some StdErrDest),
        Call_addDest ''off'' (Some (FileDest ''off.txt'')),
        Call_permitDest ''off'' False,
        Call_addDest ''none'' None,
        Call_log \<lparr>c_message = ''hello'', c_pri = Warning, c_function = ''f'', c_file = ''a.cpp'',
                   c_line = 1, c_threadId = 1\<rparr> 10,
        Task_format 0, Task_push 0, Worker_check, Worker_swap]"
  let ?l = "''Jan  1 00:00:00.10 1 global f Warning: hello (a.cpp:1)'' @ [CHR 0x0A]"
  obtain s where s: "exec test_env ?es (start (Some Debug) None) = Some s"
    and w: "worker s = Holding [(10, Warning, ?l)]"
    and facts: "trace s = []" "crashed s = None" "lifetime s = Alive"
      "m_dests s =
         [\<lparr>t_name = ''all'', t_dest = Some StdOutDest, t_threshold = Debug, t_enabled = True\<rparr>,
          \<lparr>t_name = ''err'', t_dest = Some StdErrDest, t_threshold = Error, t_enabled = True\<rparr>,
          \<lparr>t_name = ''off'', t_dest = Some (FileDest ''off.txt''), t_threshold = Debug,
             t_enabled = False\<rparr>,
          \<lparr>t_name = ''none'', t_dest = None, t_threshold = Debug, t_enabled = True\<rparr>]"
    by (simp add: run_defs Priority_defs format_line_def test_env_def stream_Priority_def
        to_time_t_def to_seconds_def pq_push_def dec_int_def dec_nat.simps)
  obtain s' where s': "step test_env Worker_dispatch s = Some s'"
    using w facts by (simp add: step_def)
  from dispatch_condition [OF s s'] obtain lq where lq: "worker s = Holding lq"
    and tr: "trace s' = trace s @
       concat (map (\<lambda>msg. Popped msg # write_targets 0 (m_dests s) msg) (sort lq))"
    and origin: "\<forall>msg \<in> set lq. \<exists>c cat'.
       passed_gate test_env (start (Some Debug) None) ?es c (fst msg) \<and>
       c_pri c = fst (snd msg) \<and> format_line test_env cat' (fst msg) c = Inr (snd (snd msg))"
    by (elim exE conjE)
  from lq w have lq_eq: "lq = [(10, Warning, ?l)]"
    by simp
  from tr have tr': "trace s' = [Popped (10, Warning, ?l), Write 0 ?l]"
    unfolding lq_eq facts by (simp add: Priority_defs)
  from origin have o: "\<exists>c cat'. passed_gate test_env (start (Some Debug) None) ?es c 10 \<and>
       c_pri c = Warning \<and> format_line test_env cat' 10 c = Inr ?l"
    unfolding lq_eq by simp
  show ?thesis
    by (rule exI [of _ s], rule exI [of _ s'], intro conjI, rule s, rule s', rule tr', rule o)
qed

subsection \<open>How the trace grows\<close>

lemma step_trace:
  assumes "step rt e s = Some s'"
  shows "trace s' = trace s @
           (case e of
              Worker_dispatch \<Rightarrow> drain_loop (m_dests s) (held (worker s))
            | Dtor_finish \<Rightarrow>
                (case m_verifCB s of
                   None \<Rightarrow> []
                 | Some cb \<Rightarrow> flush_targets 0 (m_dests s) @ [Callback cb (m_requestedErrors s)])
            | _ \<Rightarrow> [])"
  using assms
  by (cases e)
    (auto simp: step_def call_defs thread_defs Let_def
      split: if_splits task.splits worker.splits sum.splits option.splits)



lemma Write_has_popped:
  assumes "exec rt es (start gt cat) = Some s" and "Write i l \<in> set (trace s)"
  shows "\<exists>el \<in> set (popped (trace s)). snd (snd el) = l"
proof -
  have "\<forall>i l. Write i l \<in> set (trace s) \<longrightarrow> (\<exists>el \<in> set (popped (trace s)). snd (snd el) = l)"
  proof (rule exec_invariant [OF assms(1)])
    show "\<forall>i l. Write i l \<in> set (trace (start gt cat)) \<longrightarrow>
            (\<exists>el \<in> set (popped (trace (start gt cat))). snd (snd el) = l)"
      by (simp add: start_defs)
  next
    fix e u u'
    assume inv: "\<forall>i l. Write i l \<in> set (trace u) \<longrightarrow> (\<exists>el \<in> set (popped (trace u)). snd (snd el) = l)"
      and st: "step rt e u = Some u'"
    show "\<forall>i l. Write i l \<in> set (trace u') \<longrightarrow> (\<exists>el \<in> set (popped (trace u')). snd (snd el) = l)"
    proof (intro allI impI)
      fix i l
      assume w: "Write i l \<in> set (trace u')"
      show "\<exists>el \<in> set (popped (trace u')). snd (snd el) = l"
      proof (cases e)
        case Worker_dispatch
        with step_trace [OF st]
        have tr: "trace u' = trace u @ drain_loop (m_dests u) (held (worker u))"
          by simp
        from w tr consider "Write i l \<in> set (trace u)"
          | "Write i l \<in> set (drain_loop (m_dests u) (held (worker u)))"
          by auto
        then show ?thesis
        proof cases
          case 1
          with inv show ?thesis
            unfolding tr by (auto simp: popped_append)
        next
          case 2
          from Write_in_drain_loop [OF this] obtain t p where "(t, p, l) \<in> set (held (worker u))"
            by blast
          then have "(t, p, l) \<in> set (popped (trace u'))"
            unfolding tr by (simp add: popped_append popped_drain_loop)
          then show ?thesis
            by force
        qed
      next
        case Dtor_finish
        with step_trace [OF st]
        have tr: "trace u' = trace u @
            (case m_verifCB u of
               None \<Rightarrow> []
             | Some cb \<Rightarrow> flush_targets 0 (m_dests u) @ [Callback cb (m_requestedErrors u)])"
          by simp
        with w have "Write i l \<in> set (trace u)"
          by (auto simp: Write_in_flush_targets split: option.splits)
        with inv show ?thesis
          unfolding tr by (auto simp: popped_append)
      qed (use step_trace [OF st] w inv in auto)
    qed
  qed
  with assms(2) show ?thesis
    by blast
qed

subsection \<open>The call and the category behind a line\<close>

lemma formatted_in_snoc:
  assumes "formatted_in rt s0 es el"
  shows "formatted_in rt s0 (es @ [e]) el"
proof -
  from assms obtain c es_f k es_g u where f: "passed_gate rt s0 es c (fst el)"
    "c_pri c = fst (snd el)" "es = es_f @ Task_format k # es_g" "exec rt es_f s0 = Some u"
    "k < length (tasks u)" "tasks u ! k = Captured c (fst el)"
    "format_line rt (m_category u) (fst el) c = Inr (snd (snd el))"
    unfolding formatted_in_def by (elim exE conjE)
  from f(3) have "es @ [e] = es_f @ Task_format k # (es_g @ [e])"
    by simp
  then show ?thesis
    unfolding formatted_in_def
    by (rule_tac x = c in exI, rule_tac x = es_f in exI, rule_tac x = k in exI,
        rule_tac x = "es_g @ [e]" in exI, rule_tac x = u in exI)
      (intro conjI, rule passed_gate_snoc [OF f(1)], rule f(2), assumption, rule f(4), rule f(5),
        rule f(6), rule f(7))
qed

lemma exec_formatted_in:
  assumes "exec rt es (start gt cat) = Some s"
  shows "elems_from (passed_gate rt (start gt cat) es) (formatted_in rt (start gt cat) es) s"
  using assms
proof (induction es arbitrary: s rule: rev_induct)
  case Nil
  then have "s = start gt cat"
    by simp
  then show ?case
    by (simp add: elems_from_def start_defs)
next
  case (snoc e es)
  then obtain s1 where s1: "exec rt es (start gt cat) = Some s1" "step rt e s1 = Some s"
    by (auto simp: exec_snoc split: option.splits)
  show ?case
  proof (rule step_elems_from [OF s1(2) snoc.IH [OF s1(1)]])
    fix c now
    assume "passed_gate rt (start gt cat) es c now"
    then show "passed_gate rt (start gt cat) (es @ [e]) c now"
      by (rule passed_gate_snoc)
  next
    fix el
    assume "formatted_in rt (start gt cat) es el"
    then show "formatted_in rt (start gt cat) (es @ [e]) el"
      by (rule formatted_in_snoc)
  next
    fix c now
    assume "e = Call_log c now" and "m_globalThreshold s1 \<le> c_pri c"
    with s1(1) show "passed_gate rt (start gt cat) (es @ [e]) c now"
      unfolding passed_gate_def by blast
  next
    fix c now l i
    assume e: "e = Task_format i" and i: "i < length (tasks s1)" "tasks s1 ! i = Captured c now"
      and pg: "passed_gate rt (start gt cat) es c now"
      and fl: "format_line rt (m_category s1) now c = Inr l"
    have "passed_gate rt (start gt cat) (es @ [e]) c (fst (now, c_pri c, l))"
      using passed_gate_snoc [OF pg] by simp
    moreover have "c_pri c = fst (snd (now, c_pri c, l))"
      by simp
    moreover have "es @ [e] = es @ Task_format i # []"
      using e by simp
    moreover have "tasks s1 ! i = Captured c (fst (now, c_pri c, l))"
      using i(2) by simp
    moreover have "format_line rt (m_category s1) (fst (now, c_pri c, l)) c =
                     Inr (snd (snd (now, c_pri c, l)))"
      using fl by simp
    ultimately show "formatted_in rt (start gt cat) (es @ [e]) (now, c_pri c, l)"
      unfolding formatted_in_def
      by (rule_tac x = c in exI, rule_tac x = es in exI, rule_tac x = i in exI,
          rule_tac x = "[]" in exI, rule_tac x = s1 in exI)
        (intro conjI, assumption, assumption, assumption, rule s1(1), rule i(1), assumption,
          assumption)
  qed
qed

text \<open>
  Claim C8. Every line written to a destination in a run of the logger is the line of one
  call of \<^verbatim>\<open>log\<close> of that run (a call that passed the gate), formatted by a task of the run.
  It ends with a newline and consists of, in this order: the time stamp of the call (the
  text of \<^verbatim>\<open>put_time\<close>, a dot and the nanoseconds within the second), a space, the identity of
  the calling thread, a space, the category the logger had when the task formatted the line,
  a space, the function name of the call, a space, the name of its priority, a colon and a
  space, its message, a space, an opening parenthesis, its source file, a colon, its line
  number and a closing parenthesis.
\<close>

theorem written_line_layout:
  assumes "exec rt es (start gt cat0) = Some s" and "Write i l \<in> set (trace s)"
  shows "\<exists>now (c :: log_call) es1 es2 s1 es_f k es_g u tm pn.
           es = es1 @ Call_log c now # es2 \<and> exec rt es1 (start gt cat0) = Some s1 \<and>
           m_globalThreshold s1 \<le> c_pri c \<and>
           es = es_f @ Task_format k # es_g \<and> exec rt es_f (start gt cat0) = Some u \<and>
           k < length (tasks u) \<and> tasks u ! k = Captured c now \<and>
           gmtime_r rt (to_time_t now) = Some tm \<and>
           pn \<in> {''Debug'', ''Info'', ''Warning'', ''Error'', ''Critical''} \<and>
           stream_Priority [] (c_pri c) = Inr pn \<and>
           l = put_time rt tm @ ''.'' @ dec_int (now - to_seconds now * 1000000000) @ '' '' @
               thread_id_text rt (c_threadId c) @ '' '' @ m_category u @ '' '' @
               c_function c @ '' '' @ pn @ '': '' @ c_message c @ '' ('' @ c_file c @ '':'' @
               dec_int (c_line c) @ '')'' @ [CHR 0x0A] \<and>
           last l = CHR 0x0A"
proof -
  from Write_has_popped [OF assms] obtain el where el: "el \<in> set (popped (trace s))"
    "snd (snd el) = l"
    by (elim bexE)
  have "formatted_in rt (start gt cat0) es el"
    using exec_formatted_in [OF assms(1)] el(1) unfolding elems_from_def by blast
  then obtain c es_f k es_g u where f: "passed_gate rt (start gt cat0) es c (fst el)"
    "es = es_f @ Task_format k # es_g" "exec rt es_f (start gt cat0) = Some u"
    "k < length (tasks u)" "tasks u ! k = Captured c (fst el)"
    and fl: "format_line rt (m_category u) (fst el) c = Inr l"
    unfolding formatted_in_def el(2) by (elim exE conjE)
  from f(1) obtain es1 es2 s1 where g: "es = es1 @ Call_log c (fst el) # es2"
    "exec rt es1 (start gt cat0) = Some s1" "m_globalThreshold s1 \<le> c_pri c"
    unfolding passed_gate_def by (elim exE conjE)
  from format_line_Inr [OF fl] obtain tm pn where h:
    "gmtime_r rt (to_time_t (fst el)) = Some tm"
    "pn \<in> {''Debug'', ''Info'', ''Warning'', ''Error'', ''Critical''}"
    "stream_Priority [] (c_pri c) = Inr pn"
    "l = put_time rt tm @ ''.'' @ dec_int (fst el - to_seconds (fst el) * 1000000000) @ '' '' @
               thread_id_text rt (c_threadId c) @ '' '' @ m_category u @ '' '' @
               c_function c @ '' '' @ pn @ '': '' @ c_message c @ '' ('' @ c_file c @ '':'' @
               dec_int (c_line c) @ '')'' @ [CHR 0x0A]"
    "last l = CHR 0x0A"
    by (elim exE conjE)
  show ?thesis
    by (rule exI [of _ "fst el"], rule exI [of _ c], rule exI [of _ es1], rule exI [of _ es2],
        rule exI [of _ s1], rule exI [of _ es_f], rule exI [of _ k], rule exI [of _ es_g],
        rule exI [of _ u], rule exI [of _ tm], rule exI [of _ pn])
      (intro conjI, rule g(1), rule g(2), rule g(3), rule f(2), rule f(3), rule f(4), rule f(5),
        rule h(1), rule h(2), rule h(3), rule h(4), rule h(5))
qed

theorem written_line_layout_witness:
  "\<exists>s. exec test_env
         [Call_addDest ''test1'' (Some (FileDest ''test1'')),
          Call_log \<lparr>c_message = ''hello'', c_pri = Debug, c_function = ''main'',
                     c_file = ''test.cpp'', c_line = 16, c_threadId = 7\<rparr> 1000000005,
          Task_format 0, Task_push 0, Worker_check, Worker_swap, Worker_dispatch]
         (start (Some Debug) (Some ''debugger'')) = Some s \<and>
       trace s =
         [Popped (1000000005, Debug,
            ''Jan  1 00:00:01.5 7 debugger main Debug: hello (test.cpp:16)'' @ [CHR 0x0A]),
          Write 0 (''Jan  1 00:00:01.5 7 debugger main Debug: hello (test.cpp:16)'' @ [CHR 0x0A])] \<and>
       (\<exists>now (c :: log_call) es1 es2 s1 es_f k es_g u tm pn.
           [Call_addDest ''test1'' (Some (FileDest ''test1'')),
            Call_log \<lparr>c_message = ''hello'', c_pri = Debug, c_function = ''main'',
                       c_file = ''test.cpp'', c_line = 16, c_threadId = 7\<rparr> 1000000005,
            Task_format 0, Task_push 0, Worker_check, Worker_swap, Worker_dispatch] =
             es1 @ Call_log c now # es2 \<and>
           exec test_env es1 (start (Some Debug) (Some ''debugger'')) = Some s1 \<and>
           m_globalThreshold s1 \<le> c_pri c \<and>
           [Call_addDest ''test1'' (Some (FileDest ''test1'')),
            Call_log \<lparr>c_message = ''hello'', c_pri = Debug, c_function = ''main'',
                       c_file = ''test.cpp'', c_line = 16, c_threadId = 7\<rparr> 1000000005,
            Task_format 0, Task_push 0, Worker_check, Worker_swap, Worker_dispatch] =
             es_f @ Task_format k # es_g \<and>
           exec test_env es_f (start (Some Debug) (Some ''debugger'')) = Some u \<and>
           k < length (tasks u) \<and> tasks u ! k = Captured c now \<and>
           gmtime_r test_env (to_time_t now) = Some tm \<and>
           pn \<in> {''Debug'', ''Info'', ''Warning'', ''Error'', ''Critical''} \<and>
           stream_Priority [] (c_pri c) = Inr pn \<and>
           ''Jan  1 00:00:01.5 7 debugger main Debug: hello (test.cpp:16)'' @ [CHR 0x0A] =
             put_time test_env tm @ ''.'' @ dec_int (now - to_seconds now * 1000000000) @ '' '' @
             thread_id_text test_env (c_threadId c) @ '' '' @ m_category u @ '' '' @
             c_function c @ '' '' @ pn @ '': '' @ c_message c @ '' ('' @ c_file c @ '':'' @
             dec_int (c_line c) @ '')'' @ [CHR 0x0A] \<and>
           last (''Jan  1 00:00:01.5 7 debugger main Debug: hello (test.cpp:16)'' @ [CHR 0x0A]) =
             CHR 0x0A)"
proof -
  let ?es = "[Call_addDest ''test1'' (Some (FileDest ''test1'')),
          Call_log \<lparr>c_message = ''hello'', c_pri = Debug, c_function = ''main'',
                     c_file = ''test.cpp'', c_line = 16, c_threadId = 7\<rparr> 1000000005,
          Task_format 0, Task_push 0, Worker_check, Worker_swap, Worker_dispatch]"
  let ?l = "''Jan  1 00:00:01.5 7 debugger main Debug: hello (test.cpp:16)'' @ [CHR 0x0A]"
  obtain s where s: "exec test_env ?es (start (Some Debug) (Some ''debugger'')) = Some s"
    and tr: "trace s = [Popped (1000000005, Debug, ?l), Write 0 ?l]"
    by (simp add: run_defs Priority_defs format_line_def test_env_def stream_Priority_def
        to_time_t_def to_seconds_def pq_push_def drain_loop_sort dec_int_def dec_nat.simps)
  then have "Write 0 ?l \<in> set (trace s)"
    by simp
  note layout = written_line_layout [OF s this]
  show ?thesis
    by (rule exI [of _ s], intro conjI, rule s, rule tr, rule layout)
qed

subsection \<open>What the worker has dispatched when it exits\<close>







end
